theory Spec2Isabelle
  imports Complex_Main
begin

section \<open>Data model of grid-generator.py\<close>

text \<open>
  The generator works on Python floats.  They are modelled as exact real numbers: the
  development is about the geometry the code computes, not about binary rounding.
  A vertex is a triple of coordinates, a triangle the tuple (normal, v1, v2, v3).
\<close>

type_synonym Vec3 = "real \<times> real \<times> real"

type_synonym Triangle = "Vec3 \<times> Vec3 \<times> Vec3 \<times> Vec3"

section \<open>The box builder: add_box\<close>

text \<open>
  The inner helper of add_box appends the two triangles (a, b, c) and (a, c, d) of one
  face to the triangle buffer.  The buffer is passed in and returned.
\<close>

definition face :: "Triangle list \<Rightarrow> Vec3 \<Rightarrow> Vec3 \<Rightarrow> Vec3 \<Rightarrow> Vec3 \<Rightarrow> Vec3 \<Rightarrow> Triangle list" where
  "face triangles normal a b c d =
     (let triangles = triangles @ [(normal, a, b, c)];
          triangles = triangles @ [(normal, a, c, d)]
      in triangles)"

definition add_box ::
  "Triangle list \<Rightarrow> real \<Rightarrow> real \<Rightarrow> real \<Rightarrow> real \<Rightarrow> real \<Rightarrow> real \<Rightarrow> Triangle list" where
  "add_box triangles x0 y0 z0 x1 y1 z1 =
     (let (x0, x1) = (if x1 < x0 then (x1, x0) else (x0, x1));
          (y0, y1) = (if y1 < y0 then (y1, y0) else (y0, y1));
          (z0, z1) = (if z1 < z0 then (z1, z0) else (z0, z1));
          p000 = (x0, y0, z0);
          p100 = (x1, y0, z0);
          p110 = (x1, y1, z0);
          p010 = (x0, y1, z0);
          p001 = (x0, y0, z1);
          p101 = (x1, y0, z1);
          p111 = (x1, y1, z1);
          p011 = (x0, y1, z1);
          triangles = face triangles (0, 0, -1) p000 p100 p110 p010;
          triangles = face triangles (0, 0, 1) p001 p011 p111 p101;
          triangles = face triangles (-1, 0, 0) p000 p010 p011 p001;
          triangles = face triangles (1, 0, 0) p100 p101 p111 p110;
          triangles = face triangles (0, -1, 0) p000 p001 p101 p100;
          triangles = face triangles (0, 1, 0) p010 p110 p111 p011
      in triangles)"

section \<open>Text rendering used by the serializer\<close>

text \<open>
  Python's str on an int: decimal digits, with a leading minus sign for a negative
  number.
\<close>

definition digit_char :: "nat \<Rightarrow> char" where
  "digit_char d = ''0123456789'' ! (d mod 10)"

fun str_nat :: "nat \<Rightarrow> string" where
  "str_nat n = (if n < 10 then [digit_char n] else str_nat (n div 10) @ [digit_char (n mod 10)])"

declare str_nat.simps [simp del]

definition str_int :: "int \<Rightarrow> string" where
  "str_int i = (if i < 0 then ''-'' @ str_nat (nat (- i)) else str_nat (nat i))"

text \<open>
  The format specification .6g of a finite float: the value is rounded to six
  significant decimal digits (ties to even), written in fixed notation when the decimal
  exponent e of the rounded value satisfies -4 <= e < 6 and in exponent notation
  otherwise, and trailing zeros of the fraction (and a bare decimal point) are removed.

  decexp a is the decimal exponent of a positive number: the e with
  10^e <= a < 10^(e+1).
\<close>

function exp_up :: "real \<Rightarrow> int" where
  "exp_up a = (if 10 \<le> a then exp_up (a / 10) + 1 else 0)"
  by pat_completeness auto
termination
proof (relation "measure (\<lambda>a. nat \<lfloor>a\<rfloor>)")
  show "wf (measure (\<lambda>a::real. nat \<lfloor>a\<rfloor>))" by simp
next
  fix a :: real
  assume a: "10 \<le> a"
  have "a / 10 \<le> a - 9" using a by simp
  then have "\<lfloor>a / 10\<rfloor> \<le> \<lfloor>a - 9\<rfloor>" by (rule floor_mono)
  also have "\<lfloor>a - 9\<rfloor> = \<lfloor>a\<rfloor> - 9" by linarith
  finally have "\<lfloor>a / 10\<rfloor> < \<lfloor>a\<rfloor>" by simp
  moreover have "0 < \<lfloor>a\<rfloor>" using a by linarith
  ultimately show "(a / 10, a) \<in> measure (\<lambda>a. nat \<lfloor>a\<rfloor>)" by simp
qed

function exp_down :: "real \<Rightarrow> int" where
  "exp_down a = (if 0 < a \<and> a < 1 then exp_down (a * 10) - 1 else 0)"
  by pat_completeness auto
termination
proof (relation "measure (\<lambda>a. nat \<lceil>1 / a\<rceil>)")
  show "wf (measure (\<lambda>a::real. nat \<lceil>1 / a\<rceil>))" by simp
next
  fix a :: real
  assume a: "0 < a \<and> a < 1"
  then have y: "1 < 1 / a" by simp
  have le: "1 / (a * 10) \<le> 1 / a" using a by (simp add: field_simps)
  have "\<lceil>1 / (a * 10)\<rceil> < \<lceil>1 / a\<rceil>"
  proof (cases "1 / a \<le> 10")
    case True
    then have "1 / (a * 10) \<le> 1" using a by (simp add: field_simps)
    then have "\<lceil>1 / (a * 10)\<rceil> \<le> 1" by linarith
    moreover have "2 \<le> \<lceil>1 / a\<rceil>" using y by linarith
    ultimately show ?thesis by linarith
  next
    case False
    then have "1 / (a * 10) \<le> 1 / a - 9" using a by (simp add: field_simps)
    then have "\<lceil>1 / (a * 10)\<rceil> \<le> \<lceil>1 / a - 9\<rceil>" by (rule ceiling_mono)
    also have "\<lceil>1 / a - 9\<rceil> = \<lceil>1 / a\<rceil> - 9" by linarith
    finally show ?thesis by simp
  qed
  moreover have "0 < \<lceil>1 / a\<rceil>" using y by linarith
  ultimately show "(a * 10, a) \<in> measure (\<lambda>a. nat \<lceil>1 / a\<rceil>)" by simp
qed

declare exp_up.simps [simp del] exp_down.simps [simp del]

definition decexp :: "real \<Rightarrow> int" where
  "decexp a = (if 1 \<le> a then exp_up a else exp_down a)"

definition scale10 :: "real \<Rightarrow> int \<Rightarrow> real" where
  "scale10 a k = (if 0 \<le> k then a * 10 ^ nat k else a / 10 ^ nat (- k))"

definition round_half_even :: "real \<Rightarrow> int" where
  "round_half_even y =
     (let f = \<lfloor>y\<rfloor>; r = y - of_int f
      in if r < 1 / 2 then f else if 1 / 2 < r then f + 1 else if even f then f else f + 1)"

text \<open>
  sig6 a, for a positive a: the six significant digits, as a number from 100000 to
  999999, and the decimal exponent of the rounded value.
\<close>

definition sig6 :: "real \<Rightarrow> nat \<times> int" where
  "sig6 a =
     (let e = decexp a;
          d = round_half_even (scale10 a (5 - e))
      in if d = 1000000 then (100000, e + 1) else (nat d, e))"

definition strip_zeros :: "string \<Rightarrow> string" where
  "strip_zeros s = rev (dropWhile (\<lambda>c. c = CHR ''0'') (rev s))"

definition with_fraction :: "string \<Rightarrow> string \<Rightarrow> string" where
  "with_fraction ip fp = (let fp = strip_zeros fp in if fp = [] then ip else ip @ ''.'' @ fp)"

definition fixed_notation :: "nat \<Rightarrow> int \<Rightarrow> string" where
  "fixed_notation d e =
     (let ds = str_nat d
      in if 0 \<le> e then with_fraction (take (nat e + 1) ds) (drop (nat e + 1) ds)
         else with_fraction ''0'' (replicate (nat (- e - 1)) (CHR ''0'') @ ds))"

definition exponent_notation :: "nat \<Rightarrow> int \<Rightarrow> string" where
  "exponent_notation d e =
     (let ds = str_nat d;
          n = nat \<bar>e\<bar>
      in with_fraction (take 1 ds) (drop 1 ds) @ ''e'' @ (if e < 0 then ''-'' else ''+'') @
         (if n < 10 then ''0'' @ str_nat n else str_nat n))"

definition fmt_g6 :: "real \<Rightarrow> string" where
  "fmt_g6 x =
     (if x = 0 then ''0''
      else let (d, e) = sig6 \<bar>x\<bar>;
               body = (if - 4 \<le> e \<and> e < 6 then fixed_notation d e else exponent_notation d e)
           in if x < 0 then ''-'' @ body else body)"

section \<open>The serializer: write_ascii_stl\<close>

text \<open>
  The outside world of one run: the contents of the files, the paths that cannot be
  opened for writing, and the log of every attempt to open a file for writing.
  Opening a file in mode w either fails with OSError or leaves the file empty; each
  write appends to it.
\<close>

record world =
  files :: "string \<Rightarrow> string option"
  refused :: "string set"
  opened :: "string list"

datatype error = ValueError string | OSError

text \<open>The writes of the loop body of write_ascii_stl for one triangle, appended to the file text f.\<close>

definition write_facet :: "string \<Rightarrow> Triangle \<Rightarrow> string" where
  "write_facet f t =
     (case t of (normal, v1, v2, v3) \<Rightarrow>
      case normal of (nx, ny, nz) \<Rightarrow>
      case v1 of (v1x, v1y, v1z) \<Rightarrow>
      case v2 of (v2x, v2y, v2z) \<Rightarrow>
      case v3 of (v3x, v3y, v3z) \<Rightarrow>
      let f = f @ ''  facet normal '' @ fmt_g6 nx @ '' '' @ fmt_g6 ny @ '' '' @ fmt_g6 nz @ ''\<newline>'';
          f = f @ ''    outer loop\<newline>'';
          f = f @ ''      vertex '' @ fmt_g6 v1x @ '' '' @ fmt_g6 v1y @ '' '' @ fmt_g6 v1z @ ''\<newline>'';
          f = f @ ''      vertex '' @ fmt_g6 v2x @ '' '' @ fmt_g6 v2y @ '' '' @ fmt_g6 v2z @ ''\<newline>'';
          f = f @ ''      vertex '' @ fmt_g6 v3x @ '' '' @ fmt_g6 v3y @ '' '' @ fmt_g6 v3z @ ''\<newline>'';
          f = f @ ''    endloop\<newline>'';
          f = f @ ''  endfacet\<newline>''
      in f)"

text \<open>The text write_ascii_stl writes into the freshly opened file.\<close>

definition stl_text :: "string \<Rightarrow> Triangle list \<Rightarrow> string" where
  "stl_text solid_name triangles =
     (let f = [];
          f = f @ ''solid '' @ solid_name @ ''\<newline>'';
          f = foldl write_facet f triangles;
          f = f @ ''endsolid '' @ solid_name @ ''\<newline>''
      in f)"

definition write_ascii_stl :: "world \<Rightarrow> string \<Rightarrow> string \<Rightarrow> Triangle list \<Rightarrow> (error + unit) \<times> world" where
  "write_ascii_stl w filename solid_name triangles =
     (let w = w\<lparr>opened := opened w @ [filename]\<rparr>
      in if filename \<in> refused w then (Inl OSError, w)
         else (Inr (), w\<lparr>files := (files w)(filename \<mapsto> stl_text solid_name triangles)\<rparr>))"

section \<open>The layout and the mesh: generate_grid\<close>

text \<open>Python's range(n) for an int n: 0, 1, ..., n - 1, empty when n is not positive.\<close>

definition range_py :: "int \<Rightarrow> int list" where
  "range_py n = map int [0..<nat n]"

text \<open>
  The body of the loop over the columns: the cursor x passes one cell and, except after
  the last column, one divider, which is added to the buffer.  The state of the loop is
  the pair of the cursor and the buffer.
\<close>

definition vertical_wall_step ::
  "real \<Rightarrow> real \<Rightarrow> real \<Rightarrow> real \<Rightarrow> real \<Rightarrow> int \<Rightarrow> real \<times> Triangle list \<Rightarrow> int \<Rightarrow> real \<times> Triangle list" where
  "vertical_wall_step outer_length base_thickness wall_thickness total_height cell_width cols st col =
     (case st of (x, triangles) \<Rightarrow>
      let x_start_cell = x;
          x_end_cell = x_start_cell + cell_width;
          x = x_end_cell
      in if col < cols - 1 then
           let x_wall_start = x;
               x_wall_end = x_wall_start + wall_thickness;
               triangles = add_box triangles x_wall_start wall_thickness base_thickness
                             x_wall_end (outer_length - wall_thickness) total_height;
               x = x_wall_end
           in (x, triangles)
         else (x, triangles))"

text \<open>The body of the loop over the rows, the same walk along y.\<close>

definition horizontal_wall_step ::
  "real \<Rightarrow> real \<Rightarrow> real \<Rightarrow> real \<Rightarrow> real \<Rightarrow> int \<Rightarrow> real \<times> Triangle list \<Rightarrow> int \<Rightarrow> real \<times> Triangle list" where
  "horizontal_wall_step outer_width base_thickness wall_thickness total_height cell_length rows st row =
     (case st of (y, triangles) \<Rightarrow>
      let y_start_cell = y;
          y_end_cell = y_start_cell + cell_length;
          y = y_end_cell
      in if row < rows - 1 then
           let y_wall_start = y;
               y_wall_end = y_wall_start + wall_thickness;
               triangles = add_box triangles wall_thickness y_wall_start base_thickness
                             (outer_width - wall_thickness) y_wall_end total_height;
               y = y_wall_end
           in (y, triangles)
         else (y, triangles))"

text \<open>
  The triangle buffer generate_grid builds after validation, from the base slab to the
  last horizontal divider, given the cell sizes computed before.
\<close>

definition build_triangles ::
  "real \<Rightarrow> real \<Rightarrow> real \<Rightarrow> real \<Rightarrow> real \<Rightarrow> int \<Rightarrow> int \<Rightarrow> real \<Rightarrow> real \<Rightarrow> Triangle list" where
  "build_triangles outer_width outer_length base_thickness wall_thickness wall_height cols rows
       cell_width cell_length =
     (let triangles = [];
          total_height = base_thickness + wall_height;
          triangles = add_box triangles 0 0 0 outer_width outer_length base_thickness;
          triangles = add_box triangles 0 0 base_thickness wall_thickness outer_length total_height;
          triangles = add_box triangles (outer_width - wall_thickness) 0 base_thickness
                        outer_width outer_length total_height;
          triangles = add_box triangles wall_thickness 0 base_thickness
                        (outer_width - wall_thickness) wall_thickness total_height;
          triangles = add_box triangles wall_thickness (outer_length - wall_thickness) base_thickness
                        (outer_width - wall_thickness) outer_length total_height;
          x = wall_thickness;
          (x, triangles) = foldl (vertical_wall_step outer_length base_thickness wall_thickness
                                    total_height cell_width cols) (x, triangles) (range_py cols);
          y = wall_thickness;
          (y, triangles) = foldl (horizontal_wall_step outer_width base_thickness wall_thickness
                                    total_height cell_length rows) (y, triangles) (range_py rows)
      in triangles)"

text \<open>
  generate_grid: the four validation checks in the order of the source, each raising
  ValueError, then the mesh, the solid name and the call of the serializer.
\<close>

definition generate_grid ::
  "world \<Rightarrow> real \<Rightarrow> real \<Rightarrow> real \<Rightarrow> real \<Rightarrow> real \<Rightarrow> int \<Rightarrow> int \<Rightarrow> string \<Rightarrow> (error + unit) \<times> world" where
  "generate_grid w outer_width outer_length base_thickness wall_thickness wall_height cols rows filename =
     (if cols < 1 \<or> rows < 1 then (Inl (ValueError ''cols and rows must be >= 1''), w)
      else if wall_thickness \<le> 0 \<or> base_thickness \<le> 0 \<or> wall_height \<le> 0
      then (Inl (ValueError ''Thicknesses and heights must be > 0''), w)
      else
        let inner_width = outer_width - 2 * wall_thickness;
            inner_length = outer_length - 2 * wall_thickness
        in if inner_width \<le> 0 \<or> inner_length \<le> 0
           then (Inl (ValueError ''Outer size is too small for the chosen wall thickness.''), w)
           else
             let total_internal_walls_x = of_int (cols - 1) * wall_thickness;
                 total_internal_walls_y = of_int (rows - 1) * wall_thickness;
                 cell_width = (inner_width - total_internal_walls_x) / of_int cols;
                 cell_length = (inner_length - total_internal_walls_y) / of_int rows
             in if cell_width \<le> 0 \<or> cell_length \<le> 0
                then (Inl (ValueError
                       ''Outer size too small for the chosen wall thickness and grid count.''), w)
                else
                  let triangles = build_triangles outer_width outer_length base_thickness
                                    wall_thickness wall_height cols rows cell_width cell_length;
                      solid_name = ''grid_'' @ str_int cols @ ''x'' @ str_int rows
                  in write_ascii_stl w filename solid_name triangles)"

section \<open>Properties of add_box\<close>

text \<open>
  The twelve triangles of the box with normalised corners (x0, y0, z0) and
  (x1, y1, z1), written out face by face in the order of the specification's table.
\<close>

definition box_table :: "real \<Rightarrow> real \<Rightarrow> real \<Rightarrow> real \<Rightarrow> real \<Rightarrow> real \<Rightarrow> Triangle list" where
  "box_table x0 y0 z0 x1 y1 z1 =
     [((0, 0, -1), (x0, y0, z0), (x1, y0, z0), (x1, y1, z0)),
      ((0, 0, -1), (x0, y0, z0), (x1, y1, z0), (x0, y1, z0)),
      ((0, 0, 1), (x0, y0, z1), (x0, y1, z1), (x1, y1, z1)),
      ((0, 0, 1), (x0, y0, z1), (x1, y1, z1), (x1, y0, z1)),
      ((-1, 0, 0), (x0, y0, z0), (x0, y1, z0), (x0, y1, z1)),
      ((-1, 0, 0), (x0, y0, z0), (x0, y1, z1), (x0, y0, z1)),
      ((1, 0, 0), (x1, y0, z0), (x1, y0, z1), (x1, y1, z1)),
      ((1, 0, 0), (x1, y0, z0), (x1, y1, z1), (x1, y1, z0)),
      ((0, -1, 0), (x0, y0, z0), (x0, y0, z1), (x1, y0, z1)),
      ((0, -1, 0), (x0, y0, z0), (x1, y0, z1), (x1, y0, z0)),
      ((0, 1, 0), (x0, y1, z0), (x1, y1, z0), (x1, y1, z1)),
      ((0, 1, 0), (x0, y1, z0), (x1, y1, z1), (x0, y1, z1))]"

lemma add_box_eq_table:
  "add_box triangles x0 y0 z0 x1 y1 z1 =
     triangles @ box_table (min x0 x1) (min y0 y1) (min z0 z1) (max x0 x1) (max y0 y1) (max z0 z1)"
  by (simp add: add_box_def face_def box_table_def Let_def min_def max_def)

lemma length_box_table: "length (box_table x0 y0 z0 x1 y1 z1) = 12"
  by (simp add: box_table_def)

text \<open>
  Claim C3.  For any two opposite corners, add_box appends exactly twelve triangles to
  the buffer, two per face sharing the diagonal from the first to the third listed
  corner, in the face order bottom, top, -X, +X, -Y, +Y, with the normals and vertex
  orders of the specification's table, where the corners p000 ... p111 are built from
  the per-axis minima and maxima of the two given corners.  Nothing is assumed about the
  corners, so boxes with coinciding coordinates are covered.
\<close>

theorem add_box_appends_table:
  "add_box triangles xa ya za xb yb zb =
     triangles @
     [((0, 0, -1), (min xa xb, min ya yb, min za zb), (max xa xb, min ya yb, min za zb), (max xa xb, max ya yb, min za zb)),
      ((0, 0, -1), (min xa xb, min ya yb, min za zb), (max xa xb, max ya yb, min za zb), (min xa xb, max ya yb, min za zb)),
      ((0, 0, 1), (min xa xb, min ya yb, max za zb), (min xa xb, max ya yb, max za zb), (max xa xb, max ya yb, max za zb)),
      ((0, 0, 1), (min xa xb, min ya yb, max za zb), (max xa xb, max ya yb, max za zb), (max xa xb, min ya yb, max za zb)),
      ((-1, 0, 0), (min xa xb, min ya yb, min za zb), (min xa xb, max ya yb, min za zb), (min xa xb, max ya yb, max za zb)),
      ((-1, 0, 0), (min xa xb, min ya yb, min za zb), (min xa xb, max ya yb, max za zb), (min xa xb, min ya yb, max za zb)),
      ((1, 0, 0), (max xa xb, min ya yb, min za zb), (max xa xb, min ya yb, max za zb), (max xa xb, max ya yb, max za zb)),
      ((1, 0, 0), (max xa xb, min ya yb, min za zb), (max xa xb, max ya yb, max za zb), (max xa xb, max ya yb, min za zb)),
      ((0, -1, 0), (min xa xb, min ya yb, min za zb), (min xa xb, min ya yb, max za zb), (max xa xb, min ya yb, max za zb)),
      ((0, -1, 0), (min xa xb, min ya yb, min za zb), (max xa xb, min ya yb, max za zb), (max xa xb, min ya yb, min za zb)),
      ((0, 1, 0), (min xa xb, max ya yb, min za zb), (max xa xb, max ya yb, min za zb), (max xa xb, max ya yb, max za zb)),
      ((0, 1, 0), (min xa xb, max ya yb, min za zb), (max xa xb, max ya yb, max za zb), (min xa xb, max ya yb, max za zb))]
   \<and> length (add_box triangles xa ya za xb yb zb) = length triangles + 12"
  by (simp add: add_box_eq_table box_table_def)

text \<open>
  Claim C7.  add_box is symmetric in its two corners: called with the corners (a, b) or
  with (b, a) it appends the same triangles in the same order, since each axis is put in
  ascending order before the corners are built and no input is rejected.
\<close>

theorem add_box_corner_symmetric:
  "add_box triangles xa ya za xb yb zb = add_box triangles xb yb zb xa ya za"
  by (simp add: add_box_eq_table min.commute max.commute)

section \<open>The layout as a list of boxes\<close>

text \<open>
  generate_grid keeps no list of boxes: it calls add_box once per box.  To speak about the
  boxes of the layout, the same walk is run with a buffer that records the six arguments
  of every call instead of the triangles.  build_triangles_mesh_of shows that the mesh is
  exactly add_box applied to the recorded boxes, in order.  As everywhere in this
  development the cursor advances in exact real arithmetic, where the source adds
  floats.
\<close>

type_synonym Box = "real \<times> real \<times> real \<times> real \<times> real \<times> real"

definition record_box :: "Box list \<Rightarrow> real \<Rightarrow> real \<Rightarrow> real \<Rightarrow> real \<Rightarrow> real \<Rightarrow> real \<Rightarrow> Box list" where
  "record_box boxes x0 y0 z0 x1 y1 z1 = boxes @ [(x0, y0, z0, x1, y1, z1)]"

definition vertical_box_step ::
  "real \<Rightarrow> real \<Rightarrow> real \<Rightarrow> real \<Rightarrow> real \<Rightarrow> int \<Rightarrow> real \<times> Box list \<Rightarrow> int \<Rightarrow> real \<times> Box list" where
  "vertical_box_step outer_length base_thickness wall_thickness total_height cell_width cols st col =
     (case st of (x, boxes) \<Rightarrow>
      let x_start_cell = x;
          x_end_cell = x_start_cell + cell_width;
          x = x_end_cell
      in if col < cols - 1 then
           let x_wall_start = x;
               x_wall_end = x_wall_start + wall_thickness;
               boxes = record_box boxes x_wall_start wall_thickness base_thickness
                         x_wall_end (outer_length - wall_thickness) total_height;
               x = x_wall_end
           in (x, boxes)
         else (x, boxes))"

definition horizontal_box_step ::
  "real \<Rightarrow> real \<Rightarrow> real \<Rightarrow> real \<Rightarrow> real \<Rightarrow> int \<Rightarrow> real \<times> Box list \<Rightarrow> int \<Rightarrow> real \<times> Box list" where
  "horizontal_box_step outer_width base_thickness wall_thickness total_height cell_length rows st row =
     (case st of (y, boxes) \<Rightarrow>
      let y_start_cell = y;
          y_end_cell = y_start_cell + cell_length;
          y = y_end_cell
      in if row < rows - 1 then
           let y_wall_start = y;
               y_wall_end = y_wall_start + wall_thickness;
               boxes = record_box boxes wall_thickness y_wall_start base_thickness
                         (outer_width - wall_thickness) y_wall_end total_height;
               y = y_wall_end
           in (y, boxes)
         else (y, boxes))"

definition build_boxes ::
  "real \<Rightarrow> real \<Rightarrow> real \<Rightarrow> real \<Rightarrow> real \<Rightarrow> int \<Rightarrow> int \<Rightarrow> real \<Rightarrow> real \<Rightarrow> Box list" where
  "build_boxes outer_width outer_length base_thickness wall_thickness wall_height cols rows
       cell_width cell_length =
     (let boxes = [];
          total_height = base_thickness + wall_height;
          boxes = record_box boxes 0 0 0 outer_width outer_length base_thickness;
          boxes = record_box boxes 0 0 base_thickness wall_thickness outer_length total_height;
          boxes = record_box boxes (outer_width - wall_thickness) 0 base_thickness
                        outer_width outer_length total_height;
          boxes = record_box boxes wall_thickness 0 base_thickness
                        (outer_width - wall_thickness) wall_thickness total_height;
          boxes = record_box boxes wall_thickness (outer_length - wall_thickness) base_thickness
                        (outer_width - wall_thickness) outer_length total_height;
          x = wall_thickness;
          (x, boxes) = foldl (vertical_box_step outer_length base_thickness wall_thickness
                                    total_height cell_width cols) (x, boxes) (range_py cols);
          y = wall_thickness;
          (y, boxes) = foldl (horizontal_box_step outer_width base_thickness wall_thickness
                                    total_height cell_length rows) (y, boxes) (range_py rows)
      in boxes)"

definition add_box_of :: "Triangle list \<Rightarrow> Box \<Rightarrow> Triangle list" where
  "add_box_of triangles b = (case b of (x0, y0, z0, x1, y1, z1) \<Rightarrow> add_box triangles x0 y0 z0 x1 y1 z1)"

definition mesh_of :: "Box list \<Rightarrow> Triangle list" where
  "mesh_of boxes = foldl add_box_of [] boxes"

lemma mesh_of_record:
  "mesh_of (record_box boxes x0 y0 z0 x1 y1 z1) = add_box (mesh_of boxes) x0 y0 z0 x1 y1 z1"
  by (simp add: mesh_of_def record_box_def add_box_of_def)

lemma mesh_of_Nil: "mesh_of [] = []"
  by (simp add: mesh_of_def)

lemma vertical_step_mesh:
  "vertical_wall_step ol bt wt th cw cols (x, mesh_of boxes) col =
     (case vertical_box_step ol bt wt th cw cols (x, boxes) col of (x', boxes') \<Rightarrow> (x', mesh_of boxes'))"
  by (simp add: vertical_wall_step_def vertical_box_step_def Let_def mesh_of_record)

lemma horizontal_step_mesh:
  "horizontal_wall_step ow bt wt th cl rows (y, mesh_of boxes) row =
     (case horizontal_box_step ow bt wt th cl rows (y, boxes) row of (y', boxes') \<Rightarrow> (y', mesh_of boxes'))"
  by (simp add: horizontal_wall_step_def horizontal_box_step_def Let_def mesh_of_record)

lemma vertical_loop_mesh:
  "foldl (vertical_wall_step ol bt wt th cw cols) (x, mesh_of boxes) cs =
     (case foldl (vertical_box_step ol bt wt th cw cols) (x, boxes) cs of (x', boxes') \<Rightarrow> (x', mesh_of boxes'))"
proof (induction cs arbitrary: x boxes)
  case Nil
  show ?case by simp
next
  case (Cons c cs)
  obtain x1 b1 where s: "vertical_box_step ol bt wt th cw cols (x, boxes) c = (x1, b1)"
    by (cases "vertical_box_step ol bt wt th cw cols (x, boxes) c")
  show ?case
    using Cons.IH [of x1 b1] by (simp add: vertical_step_mesh s)
qed

lemma horizontal_loop_mesh:
  "foldl (horizontal_wall_step ow bt wt th cl rows) (y, mesh_of boxes) rs =
     (case foldl (horizontal_box_step ow bt wt th cl rows) (y, boxes) rs of (y', boxes') \<Rightarrow> (y', mesh_of boxes'))"
proof (induction rs arbitrary: y boxes)
  case Nil
  show ?case by simp
next
  case (Cons r rs)
  obtain y1 b1 where s: "horizontal_box_step ow bt wt th cl rows (y, boxes) r = (y1, b1)"
    by (cases "horizontal_box_step ow bt wt th cl rows (y, boxes) r")
  show ?case
    using Cons.IH [of y1 b1] by (simp add: horizontal_step_mesh s)
qed

lemma build_triangles_mesh_of:
  "build_triangles ow ol bt wt wh cols rows cw cl = mesh_of (build_boxes ow ol bt wt wh cols rows cw cl)"
  unfolding build_triangles_def build_boxes_def Let_def
  by (simp add: mesh_of_record [symmetric] mesh_of_Nil [symmetric] vertical_loop_mesh horizontal_loop_mesh
        split: prod.splits)


definition vertical_divider :: "real \<Rightarrow> real \<Rightarrow> real \<Rightarrow> real \<Rightarrow> real \<Rightarrow> nat \<Rightarrow> Box" where
  "vertical_divider ol bt wt th cw k =
     (wt + of_nat k * (cw + wt) + cw, wt, bt, wt + of_nat k * (cw + wt) + cw + wt, ol - wt, th)"

definition horizontal_divider :: "real \<Rightarrow> real \<Rightarrow> real \<Rightarrow> real \<Rightarrow> real \<Rightarrow> nat \<Rightarrow> Box" where
  "horizontal_divider ow bt wt th cl k =
     (wt, wt + of_nat k * (cl + wt) + cl, bt, ow - wt, wt + of_nat k * (cl + wt) + cl + wt, th)"

lemma vertical_loop_prefix:
  "int n \<le> cols - 1 \<Longrightarrow>
   foldl (vertical_box_step ol bt wt th cw cols) (x, boxes) (map int [0..<n]) =
     (x + of_nat n * (cw + wt),
      boxes @ map (\<lambda>k. (x + of_nat k * (cw + wt) + cw, wt, bt, x + of_nat k * (cw + wt) + cw + wt, ol - wt, th)) [0..<n])"
proof (induction n)
  case 0
  show ?case by simp
next
  case (Suc n)
  then have lt: "int n < cols - 1" and le: "int n \<le> cols - 1" by simp_all
  show ?case
    using Suc.IH [OF le] lt
    by (simp add: vertical_box_step_def record_box_def Let_def algebra_simps)
qed

lemma vertical_loop_boxes:
  "foldl (vertical_box_step ol bt wt th cw cols) (wt, boxes) (range_py cols) =
     (if cols < 1 then (wt, boxes)
      else (wt + of_nat (nat (cols - 1)) * (cw + wt) + cw,
            boxes @ map (vertical_divider ol bt wt th cw) [0..<nat (cols - 1)]))"
proof (cases "cols < 1")
  case True
  then show ?thesis by (simp add: range_py_def)
next
  case False
  define m where "m = nat (cols - 1)"
  have n: "nat cols = Suc m" using False by (simp add: m_def)
  have le: "int m \<le> cols - 1" using False by (simp add: m_def)
  have last: "\<not> int m < cols - 1" using False by (simp add: m_def)
  have "foldl (vertical_box_step ol bt wt th cw cols) (wt, boxes) (range_py cols) =
        vertical_box_step ol bt wt th cw cols
          (foldl (vertical_box_step ol bt wt th cw cols) (wt, boxes) (map int [0..<m])) (int m)"
    by (simp add: range_py_def n)
  also have "\<dots> = (wt + of_nat m * (cw + wt) + cw,
                    boxes @ map (vertical_divider ol bt wt th cw) [0..<m])"
    using last
    by (simp add: vertical_loop_prefix [OF le] vertical_box_step_def Let_def vertical_divider_def)
  finally show ?thesis using False by (simp add: m_def)
qed

lemma horizontal_loop_prefix:
  "int n \<le> rows - 1 \<Longrightarrow>
   foldl (horizontal_box_step ow bt wt th cl rows) (y, boxes) (map int [0..<n]) =
     (y + of_nat n * (cl + wt),
      boxes @ map (\<lambda>k. (wt, y + of_nat k * (cl + wt) + cl, bt, ow - wt, y + of_nat k * (cl + wt) + cl + wt, th)) [0..<n])"
proof (induction n)
  case 0
  show ?case by simp
next
  case (Suc n)
  then have lt: "int n < rows - 1" and le: "int n \<le> rows - 1" by simp_all
  show ?case
    using Suc.IH [OF le] lt
    by (simp add: horizontal_box_step_def record_box_def Let_def algebra_simps)
qed

lemma horizontal_loop_boxes:
  "foldl (horizontal_box_step ow bt wt th cl rows) (wt, boxes) (range_py rows) =
     (if rows < 1 then (wt, boxes)
      else (wt + of_nat (nat (rows - 1)) * (cl + wt) + cl,
            boxes @ map (horizontal_divider ow bt wt th cl) [0..<nat (rows - 1)]))"
proof (cases "rows < 1")
  case True
  then show ?thesis by (simp add: range_py_def)
next
  case False
  define m where "m = nat (rows - 1)"
  have n: "nat rows = Suc m" using False by (simp add: m_def)
  have le: "int m \<le> rows - 1" using False by (simp add: m_def)
  have last: "\<not> int m < rows - 1" using False by (simp add: m_def)
  have "foldl (horizontal_box_step ow bt wt th cl rows) (wt, boxes) (range_py rows) =
        horizontal_box_step ow bt wt th cl rows
          (foldl (horizontal_box_step ow bt wt th cl rows) (wt, boxes) (map int [0..<m])) (int m)"
    by (simp add: range_py_def n)
  also have "\<dots> = (wt + of_nat m * (cl + wt) + cl,
                    boxes @ map (horizontal_divider ow bt wt th cl) [0..<m])"
    using last
    by (simp add: horizontal_loop_prefix [OF le] horizontal_box_step_def Let_def horizontal_divider_def)
  finally show ?thesis using False by (simp add: m_def)
qed

text \<open>The box list in closed form: base slab, four outer walls, the dividers by index.\<close>

lemma build_boxes_closed:
  "build_boxes ow ol bt wt wh cols rows cw cl =
     [(0, 0, 0, ow, ol, bt),
      (0, 0, bt, wt, ol, bt + wh),
      (ow - wt, 0, bt, ow, ol, bt + wh),
      (wt, 0, bt, ow - wt, wt, bt + wh),
      (wt, ol - wt, bt, ow - wt, ol, bt + wh)] @
     map (vertical_divider ol bt wt (bt + wh) cw) [0..<nat (cols - 1)] @
     map (horizontal_divider ow bt wt (bt + wh) cl) [0..<nat (rows - 1)]"
  unfolding build_boxes_def Let_def
  by (simp add: record_box_def vertical_loop_boxes horizontal_loop_boxes)

text \<open>The twelve triangles add_box produces for one recorded box.\<close>

definition box_triangles :: "Box \<Rightarrow> Triangle list" where
  "box_triangles b = add_box_of [] b"

lemma add_box_of_append: "add_box_of triangles b = triangles @ box_triangles b"
  by (cases b) (simp add: add_box_of_def box_triangles_def add_box_eq_table)

lemma mesh_of_concat: "mesh_of boxes = concat (map box_triangles boxes)"
proof -
  have "foldl add_box_of ts boxes = ts @ concat (map box_triangles boxes)" for ts
  proof (induction boxes arbitrary: ts)
    case Nil
    show ?case by simp
  next
    case (Cons b bs)
    have "foldl add_box_of ts (b # bs) = foldl add_box_of (add_box_of ts b) bs" by simp
    also have "\<dots> = add_box_of ts b @ concat (map box_triangles bs)" by (rule Cons.IH)
    also have "\<dots> = ts @ concat (map box_triangles (b # bs))" by (simp add: add_box_of_append)
    finally show ?case .
  qed
  then show ?thesis by (simp add: mesh_of_def)
qed

lemma length_box_triangles: "length (box_triangles b) = 12"
  by (cases b) (simp add: box_triangles_def add_box_of_def add_box_eq_table length_box_table)

lemma length_mesh_of: "length (mesh_of boxes) = 12 * length boxes"
  by (induction boxes) (simp_all add: mesh_of_concat length_box_triangles)


section \<open>Validation and the call of the serializer\<close>

text \<open>
  The cell sizes generate_grid computes, the condition under which none of its four
  checks raises, and the values it passes to write_ascii_stl: the mesh and the solid
  name.  grid_boxes is the list of boxes behind the mesh.
\<close>

definition cell_width :: "real \<Rightarrow> real \<Rightarrow> int \<Rightarrow> real" where
  "cell_width outer_width wall_thickness cols =
     (let inner_width = outer_width - 2 * wall_thickness;
          total_internal_walls_x = of_int (cols - 1) * wall_thickness
      in (inner_width - total_internal_walls_x) / of_int cols)"

definition cell_length :: "real \<Rightarrow> real \<Rightarrow> int \<Rightarrow> real" where
  "cell_length outer_length wall_thickness rows =
     (let inner_length = outer_length - 2 * wall_thickness;
          total_internal_walls_y = of_int (rows - 1) * wall_thickness
      in (inner_length - total_internal_walls_y) / of_int rows)"

definition valid_parameters :: "real \<Rightarrow> real \<Rightarrow> real \<Rightarrow> real \<Rightarrow> real \<Rightarrow> int \<Rightarrow> int \<Rightarrow> bool" where
  "valid_parameters outer_width outer_length base_thickness wall_thickness wall_height cols rows =
     (1 \<le> cols \<and> 1 \<le> rows \<and>
      0 < wall_thickness \<and> 0 < base_thickness \<and> 0 < wall_height \<and>
      0 < outer_width - 2 * wall_thickness \<and> 0 < outer_length - 2 * wall_thickness \<and>
      0 < cell_width outer_width wall_thickness cols \<and>
      0 < cell_length outer_length wall_thickness rows)"

definition grid_mesh :: "real \<Rightarrow> real \<Rightarrow> real \<Rightarrow> real \<Rightarrow> real \<Rightarrow> int \<Rightarrow> int \<Rightarrow> Triangle list" where
  "grid_mesh outer_width outer_length base_thickness wall_thickness wall_height cols rows =
     build_triangles outer_width outer_length base_thickness wall_thickness wall_height cols rows
       (cell_width outer_width wall_thickness cols) (cell_length outer_length wall_thickness rows)"

definition grid_boxes :: "real \<Rightarrow> real \<Rightarrow> real \<Rightarrow> real \<Rightarrow> real \<Rightarrow> int \<Rightarrow> int \<Rightarrow> Box list" where
  "grid_boxes outer_width outer_length base_thickness wall_thickness wall_height cols rows =
     build_boxes outer_width outer_length base_thickness wall_thickness wall_height cols rows
       (cell_width outer_width wall_thickness cols) (cell_length outer_length wall_thickness rows)"

definition solid_name :: "int \<Rightarrow> int \<Rightarrow> string" where
  "solid_name cols rows = ''grid_'' @ str_int cols @ ''x'' @ str_int rows"

text \<open>A world with no files, in which every path can be opened.\<close>

definition empty_world :: world where
  "empty_world = \<lparr>files = (\<lambda>p. None), refused = {}, opened = []\<rparr>"

lemma generate_grid_valid:
  "valid_parameters ow ol bt wt wh cols rows \<Longrightarrow>
   generate_grid w ow ol bt wt wh cols rows f =
     write_ascii_stl w f (solid_name cols rows) (grid_mesh ow ol bt wt wh cols rows)"
  by (simp add: valid_parameters_def generate_grid_def cell_width_def cell_length_def
        grid_mesh_def solid_name_def Let_def not_le [symmetric])

lemma generate_grid_invalid:
  "\<not> valid_parameters ow ol bt wt wh cols rows \<Longrightarrow>
   \<exists>msg. generate_grid w ow ol bt wt wh cols rows f = (Inl (ValueError msg), w)"
  by (auto simp add: valid_parameters_def generate_grid_def cell_width_def cell_length_def
        Let_def not_le not_less)

lemma write_ascii_stl_result:
  "fst (write_ascii_stl w f name ts) = Inl OSError \<or> fst (write_ascii_stl w f name ts) = Inr ()"
  by (simp add: write_ascii_stl_def Let_def)

lemma write_ascii_stl_opened:
  "opened (snd (write_ascii_stl w f name ts)) = opened w @ [f]"
  by (simp add: write_ascii_stl_def Let_def)

lemma generate_grid_ValueError_iff:
  "(\<exists>msg. fst (generate_grid w ow ol bt wt wh cols rows f) = Inl (ValueError msg)) =
     (\<not> valid_parameters ow ol bt wt wh cols rows)"
proof (cases "valid_parameters ow ol bt wt wh cols rows")
  case True
  have "fst (generate_grid w ow ol bt wt wh cols rows f) \<noteq> Inl (ValueError msg)" for msg
    using write_ascii_stl_result [of w f "solid_name cols rows" "grid_mesh ow ol bt wt wh cols rows"]
    by (auto simp add: generate_grid_valid [OF True])
  with True show ?thesis by simp
next
  case False
  from generate_grid_invalid [OF False, of w f] obtain msg where
    "generate_grid w ow ol bt wt wh cols rows f = (Inl (ValueError msg), w)" ..
  then have "fst (generate_grid w ow ol bt wt wh cols rows f) = Inl (ValueError msg)" by simp
  with False show ?thesis by blast
qed

text \<open>
  Claim C5.  generate_grid raises its parameter error (ValueError in the source) exactly
  when cols < 1 or rows < 1, or one of wall_thickness, base_thickness, wall_height is not
  positive, or an inner dimension outer - 2 * wall_thickness is not positive, or a
  computed cell size is not positive.  In particular it raises for cols = 0, for
  wall_thickness = 0, for outer_width = 10 with wall_thickness = 6, and for cols = 100
  with outer_width = 50 and wall_thickness = 2, whatever the other parameters are.
\<close>

theorem generate_grid_raises_iff:
  "((\<exists>msg. fst (generate_grid w ow ol bt wt wh cols rows f) = Inl (ValueError msg)) =
      (cols < 1 \<or> rows < 1 \<or> wt \<le> 0 \<or> bt \<le> 0 \<or> wh \<le> 0 \<or>
       ow - 2 * wt \<le> 0 \<or> ol - 2 * wt \<le> 0 \<or>
       (ow - 2 * wt - of_int (cols - 1) * wt) / of_int cols \<le> 0 \<or>
       (ol - 2 * wt - of_int (rows - 1) * wt) / of_int rows \<le> 0))
   \<and> (\<exists>msg. fst (generate_grid w ow ol bt wt wh 0 rows f) = Inl (ValueError msg))
   \<and> (\<exists>msg. fst (generate_grid w ow ol bt 0 wh cols rows f) = Inl (ValueError msg))
   \<and> (\<exists>msg. fst (generate_grid w 10 ol bt 6 wh cols rows f) = Inl (ValueError msg))
   \<and> (\<exists>msg. fst (generate_grid w 50 ol bt 2 wh 100 rows f) = Inl (ValueError msg))"
proof -
  have general: "(\<exists>msg. fst (generate_grid w ow ol bt wt wh cols rows f) = Inl (ValueError msg)) =
      (cols < 1 \<or> rows < 1 \<or> wt \<le> 0 \<or> bt \<le> 0 \<or> wh \<le> 0 \<or>
       ow - 2 * wt \<le> 0 \<or> ol - 2 * wt \<le> 0 \<or>
       (ow - 2 * wt - of_int (cols - 1) * wt) / of_int cols \<le> 0 \<or>
       (ol - 2 * wt - of_int (rows - 1) * wt) / of_int rows \<le> 0)"
    for ow ol bt wt wh cols rows
    unfolding generate_grid_ValueError_iff valid_parameters_def cell_width_def cell_length_def Let_def
    by (simp only: de_Morgan_conj not_le not_less)
  have c0: "\<exists>msg. fst (generate_grid w ow ol bt wt wh 0 rows f) = Inl (ValueError msg)"
    unfolding general by simp
  have w0: "\<exists>msg. fst (generate_grid w ow ol bt 0 wh cols rows f) = Inl (ValueError msg)"
    unfolding general by simp
  have i0: "\<exists>msg. fst (generate_grid w 10 ol bt 6 wh cols rows f) = Inl (ValueError msg)"
    unfolding general by simp
  have cw0: "\<exists>msg. fst (generate_grid w 50 ol bt 2 wh 100 rows f) = Inl (ValueError msg)"
    unfolding general by simp
  from general c0 w0 i0 cw0 show ?thesis by blast
qed

text \<open>
  Claim C6.  When generate_grid raises its parameter error, the world is as it was before
  the call: no file was opened, created or written.  The serializer, which opens the
  output file, is called only when no check has raised; then the path is opened.
\<close>

theorem generate_grid_raises_before_io:
  "(fst (generate_grid w ow ol bt wt wh cols rows f) = Inl (ValueError msg)
      \<longrightarrow> snd (generate_grid w ow ol bt wt wh cols rows f) = w)
   \<and> ((\<forall>m. fst (generate_grid w ow ol bt wt wh cols rows f) \<noteq> Inl (ValueError m))
      \<longrightarrow> generate_grid w ow ol bt wt wh cols rows f =
            write_ascii_stl w f (solid_name cols rows) (grid_mesh ow ol bt wt wh cols rows)
          \<and> opened (snd (generate_grid w ow ol bt wt wh cols rows f)) = opened w @ [f])"
proof (cases "valid_parameters ow ol bt wt wh cols rows")
  case True
  have no: "fst (generate_grid w ow ol bt wt wh cols rows f) \<noteq> Inl (ValueError m)" for m
    using generate_grid_ValueError_iff [of w ow ol bt wt wh cols rows f] True by simp
  show ?thesis
    using no by (simp add: generate_grid_valid [OF True] write_ascii_stl_opened)
next
  case False
  from generate_grid_invalid [OF False, of w f] obtain m where
    m: "generate_grid w ow ol bt wt wh cols rows f = (Inl (ValueError m), w)" ..
  show ?thesis
    by (auto simp add: m)
qed

theorem generate_grid_raises_before_io_witness:
  "fst (generate_grid empty_world 215 115 2 2 20 0 3 ''grid.stl'')
     = Inl (ValueError ''cols and rows must be >= 1'')
   \<and> snd (generate_grid empty_world 215 115 2 2 20 0 3 ''grid.stl'') = empty_world
   \<and> opened (snd (generate_grid empty_world 215 115 2 2 20 5 3 ''grid.stl'')) = [''grid.stl'']"
proof -
  have bad: "fst (generate_grid empty_world 215 115 2 2 20 0 3 ''grid.stl'')
      = Inl (ValueError ''cols and rows must be >= 1'')"
    by (simp add: generate_grid_def)
  have good: "\<forall>m. fst (generate_grid empty_world 215 115 2 2 20 5 3 ''grid.stl'') \<noteq> Inl (ValueError m)"
    by (simp add: generate_grid_def write_ascii_stl_def Let_def empty_world_def)
  have a: "snd (generate_grid empty_world 215 115 2 2 20 0 3 ''grid.stl'') = empty_world"
    using generate_grid_raises_before_io
            [of empty_world 215 115 2 2 20 0 3 "''grid.stl''" "''cols and rows must be >= 1''"] bad
    by blast
  have b: "opened (snd (generate_grid empty_world 215 115 2 2 20 5 3 ''grid.stl''))
             = opened empty_world @ [''grid.stl'']"
    using generate_grid_raises_before_io [of empty_world 215 115 2 2 20 5 3 "''grid.stl''"] good
    by blast
  have c: "opened empty_world = []" by (simp add: empty_world_def)
  from bad a b c show ?thesis by simp
qed

section \<open>The number of triangles\<close>

lemma length_grid_boxes:
  "length (grid_boxes ow ol bt wt wh cols rows) = 5 + nat (cols - 1) + nat (rows - 1)"
  by (simp add: grid_boxes_def build_boxes_closed)

lemma grid_mesh_boxes:
  "grid_mesh ow ol bt wt wh cols rows = mesh_of (grid_boxes ow ol bt wt wh cols rows)"
  by (simp add: grid_mesh_def grid_boxes_def build_triangles_mesh_of)

lemma length_grid_mesh:
  "length (grid_mesh ow ol bt wt wh cols rows) = 12 * (5 + nat (cols - 1) + nat (rows - 1))"
  by (simp add: grid_mesh_boxes length_mesh_of length_grid_boxes)

text \<open>
  Claim C1.  For every parameter set that passes all validation checks, the triangle list
  generate_grid hands to the serializer has exactly 12 * (5 + (cols - 1) + (rows - 1))
  triangles.  For cols = 1 and rows = 1 these are 60 triangles, and the boxes added are
  the base slab and the four outer walls only.
\<close>

theorem generate_grid_triangle_count:
  assumes "valid_parameters ow ol bt wt wh cols rows"
  shows "generate_grid w ow ol bt wt wh cols rows f =
           write_ascii_stl w f (solid_name cols rows) (grid_mesh ow ol bt wt wh cols rows)
         \<and> int (length (grid_mesh ow ol bt wt wh cols rows)) = 12 * (5 + (cols - 1) + (rows - 1))
         \<and> (cols = 1 \<and> rows = 1 \<longrightarrow>
              length (grid_mesh ow ol bt wt wh cols rows) = 60
              \<and> grid_boxes ow ol bt wt wh cols rows =
                  [(0, 0, 0, ow, ol, bt),
                   (0, 0, bt, wt, ol, bt + wh),
                   (ow - wt, 0, bt, ow, ol, bt + wh),
                   (wt, 0, bt, ow - wt, wt, bt + wh),
                   (wt, ol - wt, bt, ow - wt, ol, bt + wh)])"
proof -
  from assms have c: "1 \<le> cols" and r: "1 \<le> rows"
    by (simp_all add: valid_parameters_def)
  have count: "int (length (grid_mesh ow ol bt wt wh cols rows)) = 12 * (5 + (cols - 1) + (rows - 1))"
    using c r by (simp add: length_grid_mesh)
  have one: "cols = 1 \<and> rows = 1 \<longrightarrow>
              length (grid_mesh ow ol bt wt wh cols rows) = 60
              \<and> grid_boxes ow ol bt wt wh cols rows =
                  [(0, 0, 0, ow, ol, bt),
                   (0, 0, bt, wt, ol, bt + wh),
                   (ow - wt, 0, bt, ow, ol, bt + wh),
                   (wt, 0, bt, ow - wt, wt, bt + wh),
                   (wt, ol - wt, bt, ow - wt, ol, bt + wh)]"
    by (simp add: length_grid_mesh grid_boxes_def build_boxes_closed)
  from generate_grid_valid [OF assms] count one show ?thesis by blast
qed

theorem generate_grid_triangle_count_witness:
  "valid_parameters 215 115 2 2 20 5 3
   \<and> int (length (grid_mesh 215 115 2 2 20 5 3)) = 132
   \<and> valid_parameters 215 115 2 2 20 1 1
   \<and> length (grid_mesh 215 115 2 2 20 1 1) = 60"
proof -
  have v: "valid_parameters 215 115 2 2 20 5 3"
    by (simp add: valid_parameters_def cell_width_def cell_length_def)
  have v1: "valid_parameters 215 115 2 2 20 1 1"
    by (simp add: valid_parameters_def cell_width_def cell_length_def)
  from generate_grid_triangle_count [OF v, of empty_world "''grid.stl''"]
       generate_grid_triangle_count [OF v1, of empty_world "''grid.stl''"] v v1
  show ?thesis by simp
qed


section \<open>Where the boxes and the vertices lie\<close>

text \<open>
  The three vertices of a triangle; a box both of whose corners lie in the outer bounding
  box of the tray; a box whose second corner is strictly beyond the first on every axis.
\<close>

definition vertices :: "Triangle \<Rightarrow> Vec3 list" where
  "vertices t = (case t of (normal, v1, v2, v3) \<Rightarrow> [v1, v2, v3])"

definition box_within :: "real \<Rightarrow> real \<Rightarrow> real \<Rightarrow> Box \<Rightarrow> bool" where
  "box_within ow ol h b =
     (case b of (x0, y0, z0, x1, y1, z1) \<Rightarrow>
        0 \<le> x0 \<and> x0 \<le> ow \<and> 0 \<le> x1 \<and> x1 \<le> ow \<and>
        0 \<le> y0 \<and> y0 \<le> ol \<and> 0 \<le> y1 \<and> y1 \<le> ol \<and>
        0 \<le> z0 \<and> z0 \<le> h \<and> 0 \<le> z1 \<and> z1 \<le> h)"

definition box_proper :: "Box \<Rightarrow> bool" where
  "box_proper b = (case b of (x0, y0, z0, x1, y1, z1) \<Rightarrow> x0 < x1 \<and> y0 < y1 \<and> z0 < z1)"

lemma cell_width_tiling:
  "1 \<le> cols \<Longrightarrow>
   of_nat (nat (cols - 1)) * (cell_width ow wt cols + wt) + cell_width ow wt cols = ow - 2 * wt"
  by (simp add: cell_width_def Let_def field_simps)

lemma cell_length_tiling:
  "1 \<le> rows \<Longrightarrow>
   of_nat (nat (rows - 1)) * (cell_length ol wt rows + wt) + cell_length ol wt rows = ol - 2 * wt"
  by (simp add: cell_length_def Let_def field_simps)

lemma divider_step:
  fixes c t :: real
  assumes "0 < c" "0 < t" "k < n"
  shows "of_nat k * (c + t) + c + t \<le> of_nat n * (c + t)"
proof -
  have "of_nat (Suc k) * (c + t) \<le> of_nat n * (c + t)"
    using assms by (intro mult_right_mono) (simp_all add: Suc_le_eq del: of_nat_Suc)
  then show ?thesis by (simp add: algebra_simps)
qed

lemma divider_order:
  fixes c t :: real
  assumes "0 < c" "0 < t" "j < k"
  shows "of_nat j * (c + t) + c + t \<le> of_nat k * (c + t)"
  using divider_step [OF assms] .


lemma box_table_vertex:
  assumes "t \<in> set (box_table x0 y0 z0 x1 y1 z1)" "(x, y, z) \<in> set (vertices t)"
  shows "(x = x0 \<or> x = x1) \<and> (y = y0 \<or> y = y1) \<and> (z = z0 \<or> z = z1)"
  using assms unfolding box_table_def vertices_def by auto

lemma box_triangles_table:
  "box_triangles (x0, y0, z0, x1, y1, z1) =
     box_table (min x0 x1) (min y0 y1) (min z0 z1) (max x0 x1) (max y0 y1) (max z0 z1)"
  by (simp add: box_triangles_def add_box_of_def add_box_eq_table)

lemma box_within_vertex:
  assumes w: "box_within ow ol h b"
    and t: "t \<in> set (box_triangles b)"
    and v: "(x, y, z) \<in> set (vertices t)"
  shows "0 \<le> x \<and> x \<le> ow \<and> 0 \<le> y \<and> y \<le> ol \<and> 0 \<le> z \<and> z \<le> h"
proof -
  obtain x0 y0 z0 x1 y1 z1 where b: "b = (x0, y0, z0, x1, y1, z1)"
    by (cases b) auto
  from t have "t \<in> set (box_table (min x0 x1) (min y0 y1) (min z0 z1) (max x0 x1) (max y0 y1) (max z0 z1))"
    by (simp add: b box_triangles_table)
  from box_table_vertex [OF this v]
  have c: "(x = min x0 x1 \<or> x = max x0 x1) \<and> (y = min y0 y1 \<or> y = max y0 y1)
           \<and> (z = min z0 z1 \<or> z = max z0 z1)" .
  from w have
    "0 \<le> x0" "x0 \<le> ow" "0 \<le> x1" "x1 \<le> ow"
    "0 \<le> y0" "y0 \<le> ol" "0 \<le> y1" "y1 \<le> ol"
    "0 \<le> z0" "z0 \<le> h" "0 \<le> z1" "z1 \<le> h"
    by (simp_all add: b box_within_def)
  with c show ?thesis
    by (auto simp add: min_def max_def)
qed

text \<open>Facts about a valid parameter set, with the cell sizes named.\<close>

lemma valid_facts:
  assumes "valid_parameters ow ol bt wt wh cols rows"
  shows "0 < wt" "0 < bt" "0 < wh" "2 * wt < ow" "2 * wt < ol"
    "0 < cell_width ow wt cols" "0 < cell_length ol wt rows"
    "of_nat (nat (cols - 1)) * (cell_width ow wt cols + wt) + cell_width ow wt cols = ow - 2 * wt"
    "of_nat (nat (rows - 1)) * (cell_length ol wt rows + wt) + cell_length ol wt rows = ol - 2 * wt"
  using assms cell_width_tiling [of cols ow wt] cell_length_tiling [of rows ol wt]
  by (simp_all add: valid_parameters_def)

lemma grid_boxes_cases:
  assumes "b \<in> set (grid_boxes ow ol bt wt wh cols rows)"
  shows "b = (0, 0, 0, ow, ol, bt) \<or> b = (0, 0, bt, wt, ol, bt + wh)
       \<or> b = (ow - wt, 0, bt, ow, ol, bt + wh) \<or> b = (wt, 0, bt, ow - wt, wt, bt + wh)
       \<or> b = (wt, ol - wt, bt, ow - wt, ol, bt + wh)
       \<or> (\<exists>k < nat (cols - 1). b = vertical_divider ol bt wt (bt + wh) (cell_width ow wt cols) k)
       \<or> (\<exists>k < nat (rows - 1). b = horizontal_divider ow bt wt (bt + wh) (cell_length ol wt rows) k)"
  using assms by (auto simp add: grid_boxes_def build_boxes_closed)

lemma vertical_divider_span:
  assumes v: "valid_parameters ow ol bt wt wh cols rows" and k: "k < nat (cols - 1)"
  shows "wt < wt + of_nat k * (cell_width ow wt cols + wt) + cell_width ow wt cols"
    and "wt + of_nat k * (cell_width ow wt cols + wt) + cell_width ow wt cols + wt < ow - wt"
proof -
  note f = valid_facts [OF v]
  have nn: "0 \<le> of_nat k * (cell_width ow wt cols + wt)"
    using f(1) f(6) by simp
  from nn f(6) show "wt < wt + of_nat k * (cell_width ow wt cols + wt) + cell_width ow wt cols"
    by linarith
  from divider_step [OF f(6) f(1) k] f(8) f(6)
  show "wt + of_nat k * (cell_width ow wt cols + wt) + cell_width ow wt cols + wt < ow - wt"
    by linarith
qed

lemma horizontal_divider_span:
  assumes v: "valid_parameters ow ol bt wt wh cols rows" and k: "k < nat (rows - 1)"
  shows "wt < wt + of_nat k * (cell_length ol wt rows + wt) + cell_length ol wt rows"
    and "wt + of_nat k * (cell_length ol wt rows + wt) + cell_length ol wt rows + wt < ol - wt"
proof -
  note f = valid_facts [OF v]
  have nn: "0 \<le> of_nat k * (cell_length ol wt rows + wt)"
    using f(1) f(7) by simp
  from nn f(7) show "wt < wt + of_nat k * (cell_length ol wt rows + wt) + cell_length ol wt rows"
    by linarith
  from divider_step [OF f(7) f(1) k] f(9) f(7)
  show "wt + of_nat k * (cell_length ol wt rows + wt) + cell_length ol wt rows + wt < ol - wt"
    by linarith
qed

lemma grid_boxes_within:
  assumes v: "valid_parameters ow ol bt wt wh cols rows"
    and b: "b \<in> set (grid_boxes ow ol bt wt wh cols rows)"
  shows "box_within ow ol (bt + wh) b"
proof -
  note f = valid_facts [OF v]
  from grid_boxes_cases [OF b] show ?thesis
  proof (elim disjE exE conjE)
    fix k assume k: "k < nat (cols - 1)"
      and bk: "b = vertical_divider ol bt wt (bt + wh) (cell_width ow wt cols) k"
    from vertical_divider_span [OF v k] f(1) f(2) f(3) f(5)
    show ?thesis by (simp add: bk vertical_divider_def box_within_def)
  next
    fix k assume k: "k < nat (rows - 1)"
      and bk: "b = horizontal_divider ow bt wt (bt + wh) (cell_length ol wt rows) k"
    from horizontal_divider_span [OF v k] f(1) f(2) f(3) f(4)
    show ?thesis by (simp add: bk horizontal_divider_def box_within_def)
  qed (use f(1) f(2) f(3) f(4) f(5) in \<open>simp_all add: box_within_def\<close>)
qed

lemma grid_boxes_proper:
  assumes v: "valid_parameters ow ol bt wt wh cols rows"
    and b: "b \<in> set (grid_boxes ow ol bt wt wh cols rows)"
  shows "box_proper b"
proof -
  note f = valid_facts [OF v]
  from grid_boxes_cases [OF b] show ?thesis
  proof (elim disjE exE conjE)
    fix k assume k: "k < nat (cols - 1)"
      and bk: "b = vertical_divider ol bt wt (bt + wh) (cell_width ow wt cols) k"
    from f(1) f(2) f(3) f(5)
    show ?thesis by (simp add: bk vertical_divider_def box_proper_def)
  next
    fix k assume k: "k < nat (rows - 1)"
      and bk: "b = horizontal_divider ow bt wt (bt + wh) (cell_length ol wt rows) k"
    from f(1) f(2) f(3) f(4)
    show ?thesis by (simp add: bk horizontal_divider_def box_proper_def)
  qed (use f(1) f(2) f(3) f(4) f(5) in \<open>simp_all add: box_proper_def\<close>)
qed

lemma grid_mesh_triangle:
  assumes "t \<in> set (grid_mesh ow ol bt wt wh cols rows)"
  shows "\<exists>b \<in> set (grid_boxes ow ol bt wt wh cols rows). t \<in> set (box_triangles b)"
  using assms by (auto simp add: grid_mesh_boxes mesh_of_concat)

lemma grid_mesh_vertex_bounds:
  assumes v: "valid_parameters ow ol bt wt wh cols rows"
    and t: "t \<in> set (grid_mesh ow ol bt wt wh cols rows)"
    and p: "(x, y, z) \<in> set (vertices t)"
  shows "0 \<le> x \<and> x \<le> ow \<and> 0 \<le> y \<and> y \<le> ol \<and> 0 \<le> z \<and> z \<le> bt + wh"
proof -
  from grid_mesh_triangle [OF t] obtain b where
    b: "b \<in> set (grid_boxes ow ol bt wt wh cols rows)" and tb: "t \<in> set (box_triangles b)" by blast
  from box_within_vertex [OF grid_boxes_within [OF v b] tb p] show ?thesis .
qed

lemma add_box_preserves_bounds:
  assumes inv: "\<forall>t \<in> set triangles. \<forall>(x, y, z) \<in> set (vertices t).
                  0 \<le> x \<and> x \<le> ow \<and> 0 \<le> y \<and> y \<le> ol \<and> 0 \<le> z \<and> z \<le> h"
    and b: "box_within ow ol h (x0, y0, z0, x1, y1, z1)"
  shows "\<forall>t \<in> set (add_box triangles x0 y0 z0 x1 y1 z1). \<forall>(x, y, z) \<in> set (vertices t).
           0 \<le> x \<and> x \<le> ow \<and> 0 \<le> y \<and> y \<le> ol \<and> 0 \<le> z \<and> z \<le> h"
proof (intro ballI)
  fix t p
  assume t: "t \<in> set (add_box triangles x0 y0 z0 x1 y1 z1)" and p: "p \<in> set (vertices t)"
  obtain x y z where xyz: "p = (x, y, z)" by (cases p) auto
  from t have "t \<in> set triangles \<or> t \<in> set (box_triangles (x0, y0, z0, x1, y1, z1))"
    by (simp add: add_box_eq_table box_triangles_table)
  then have "0 \<le> x \<and> x \<le> ow \<and> 0 \<le> y \<and> y \<le> ol \<and> 0 \<le> z \<and> z \<le> h"
  proof
    assume "t \<in> set triangles"
    with inv p xyz show ?thesis by fastforce
  next
    assume "t \<in> set (box_triangles (x0, y0, z0, x1, y1, z1))"
    from box_within_vertex [OF b this] p xyz show ?thesis by simp
  qed
  then show "case p of (x, y, z) \<Rightarrow> 0 \<le> x \<and> x \<le> ow \<and> 0 \<le> y \<and> y \<le> ol \<and> 0 \<le> z \<and> z \<le> h"
    by (simp add: xyz)
qed

text \<open>
  Claim C10.  For every valid parameter set, every vertex (x, y, z) of every triangle of
  the mesh generate_grid hands to the serializer satisfies 0 <= x <= outer_width,
  0 <= y <= outer_length and 0 <= z <= base_thickness + wall_height, in exact arithmetic.
  (add_box_preserves_bounds is the step: adding a box whose corners lie in the outer
  bounding box keeps all vertices of the buffer there.)
\<close>

theorem generate_grid_vertices_in_outer_box:
  assumes "valid_parameters ow ol bt wt wh cols rows"
    and "t \<in> set (grid_mesh ow ol bt wt wh cols rows)"
    and "(x, y, z) \<in> set (vertices t)"
  shows "generate_grid w ow ol bt wt wh cols rows f =
           write_ascii_stl w f (solid_name cols rows) (grid_mesh ow ol bt wt wh cols rows)
         \<and> 0 \<le> x \<and> x \<le> ow \<and> 0 \<le> y \<and> y \<le> ol \<and> 0 \<le> z \<and> z \<le> bt + wh"
  using generate_grid_valid [OF assms(1)] grid_mesh_vertex_bounds [OF assms] by simp

lemma first_triangle_in_default_mesh:
  "((0, 0, - 1), (0, 0, 0), (215, 0, 0), (215, 115, 0)) \<in> set (grid_mesh 215 115 2 2 20 5 3)"
  by (simp add: grid_mesh_boxes mesh_of_concat grid_boxes_def build_boxes_closed
        box_triangles_table box_table_def)

lemma default_parameters_valid: "valid_parameters 215 115 2 2 20 5 3"
  by (simp add: valid_parameters_def cell_width_def cell_length_def)

theorem generate_grid_vertices_in_outer_box_witness:
  "valid_parameters 215 115 2 2 20 5 3
   \<and> ((0, 0, - 1), (0, 0, 0), (215, 0, 0), (215, 115, 0)) \<in> set (grid_mesh 215 115 2 2 20 5 3)
   \<and> (215, 115, 0) \<in> set (vertices ((0, 0, - 1), (0, 0, 0), (215, 0, 0), (215, 115, 0)))
   \<and> (215::real) \<le> 215 \<and> (115::real) \<le> 115 \<and> (0::real) \<le> 2 + 20"
proof -
  have p: "(215, 115, 0) \<in> set (vertices ((0, 0, - 1), (0, 0, 0), (215, 0, 0), (215, 115, 0)))"
    by (simp add: vertices_def)
  from generate_grid_vertices_in_outer_box
         [OF default_parameters_valid first_triangle_in_default_mesh p, of empty_world "''grid.stl''"]
       default_parameters_valid first_triangle_in_default_mesh p
  show ?thesis by simp
qed

section \<open>The default parameter set\<close>

lemma solid_name_default: "solid_name 5 3 = ''grid_5x3''"
  by (simp add: solid_name_def str_int_def str_nat.simps digit_char_def)

text \<open>
  Claim C9.  For the default parameters outer_width = 215, outer_length = 115,
  base_thickness = 2, wall_thickness = 2, wall_height = 20, cols = 5, rows = 3,
  generate_grid calls the serializer with the solid name grid_5x3 and a mesh of exactly
  132 triangles, every vertex of which has its z coordinate in the interval [0, 22].
\<close>

theorem generate_grid_default_run:
  "generate_grid w 215 115 2 2 20 5 3 f =
     write_ascii_stl w f ''grid_5x3'' (grid_mesh 215 115 2 2 20 5 3)
   \<and> length (grid_mesh 215 115 2 2 20 5 3) = 132
   \<and> list_all (\<lambda>t. list_all (\<lambda>(x, y, z). 0 \<le> z \<and> z \<le> 22) (vertices t))
        (grid_mesh 215 115 2 2 20 5 3)"
proof -
  have call: "generate_grid w 215 115 2 2 20 5 3 f =
      write_ascii_stl w f ''grid_5x3'' (grid_mesh 215 115 2 2 20 5 3)"
    using generate_grid_valid [OF default_parameters_valid, of w f]
    by (simp add: solid_name_default)
  have count: "length (grid_mesh 215 115 2 2 20 5 3) = 132"
    by (simp add: length_grid_mesh)
  have z: "list_all (\<lambda>t. list_all (\<lambda>(x, y, z). 0 \<le> z \<and> z \<le> 22) (vertices t))
        (grid_mesh 215 115 2 2 20 5 3)"
    unfolding list_all_iff
  proof (intro ballI)
    fix t p
    assume t: "t \<in> set (grid_mesh 215 115 2 2 20 5 3)" and p: "p \<in> set (vertices t)"
    obtain x y z where xyz: "p = (x, y, z)" by (cases p) auto
    from grid_mesh_vertex_bounds [OF default_parameters_valid t] p xyz
    show "case p of (x, y, z) \<Rightarrow> 0 \<le> z \<and> z \<le> 22" by simp
  qed
  from call count z show ?thesis by blast
qed


section \<open>Winding order against the stated normals\<close>

text \<open>
  The normal a reader derives from the vertex order of a triangle by the right-hand rule
  is the normalised cross product of (v2 - v1) and (v3 - v1): seen from the side this
  vector points to, v1, v2, v3 run counter-clockwise.  stated_normal is the normal the
  code stores in the triangle.
\<close>

definition vsub :: "Vec3 \<Rightarrow> Vec3 \<Rightarrow> Vec3" where
  "vsub a b = (case a of (ax, ay, az) \<Rightarrow> case b of (bx, by, bz) \<Rightarrow> (ax - bx, ay - by, az - bz))"

definition cross :: "Vec3 \<Rightarrow> Vec3 \<Rightarrow> Vec3" where
  "cross a b =
     (case a of (ax, ay, az) \<Rightarrow> case b of (bx, by, bz) \<Rightarrow>
        (ay * bz - az * by, az * bx - ax * bz, ax * by - ay * bx))"

definition normalize :: "Vec3 \<Rightarrow> Vec3" where
  "normalize v = (case v of (x, y, z) \<Rightarrow>
     let n = sqrt (x * x + y * y + z * z) in (x / n, y / n, z / n))"

definition vneg :: "Vec3 \<Rightarrow> Vec3" where
  "vneg v = (case v of (x, y, z) \<Rightarrow> (- x, - y, - z))"

definition stated_normal :: "Triangle \<Rightarrow> Vec3" where
  "stated_normal t = (case t of (normal, v1, v2, v3) \<Rightarrow> normal)"

definition winding :: "Triangle \<Rightarrow> Vec3" where
  "winding t = (case t of (normal, v1, v2, v3) \<Rightarrow> cross (vsub v2 v1) (vsub v3 v1))"

definition winding_normal :: "Triangle \<Rightarrow> Vec3" where
  "winding_normal t = normalize (winding t)"

lemma normalize_axis:
  assumes "0 < a"
  shows "normalize (a, 0, 0) = (1, 0, 0)" "normalize (- a, 0, 0) = (- 1, 0, 0)"
    "normalize (0, a, 0) = (0, 1, 0)" "normalize (0, - a, 0) = (0, - 1, 0)"
    "normalize (0, 0, a) = (0, 0, 1)" "normalize (0, 0, - a) = (0, 0, - 1)"
  using assms by (simp_all add: normalize_def Let_def)

lemma winding_box_table:
  "map winding (box_table x0 y0 z0 (x0 + dx) (y0 + dy) (z0 + dz)) =
     [(0, 0, dx * dy), (0, 0, dx * dy),
      (0, 0, - (dx * dy)), (0, 0, - (dx * dy)),
      (dy * dz, 0, 0), (dy * dz, 0, 0),
      (- (dy * dz), 0, 0), (- (dy * dz), 0, 0),
      (0, dx * dz, 0), (0, dx * dz, 0),
      (0, - (dx * dz), 0), (0, - (dx * dz), 0)]"
  by (simp add: box_table_def winding_def cross_def vsub_def)

lemma winding_normal_box_table:
  assumes "0 < dx" "0 < dy" "0 < dz"
  shows "map winding_normal (box_table x0 y0 z0 (x0 + dx) (y0 + dy) (z0 + dz)) =
         map (\<lambda>t. vneg (stated_normal t)) (box_table x0 y0 z0 (x0 + dx) (y0 + dy) (z0 + dz))"
proof -
  have p: "0 < dx * dy" "0 < dy * dz" "0 < dx * dz" using assms by simp_all
  have "map winding_normal (box_table x0 y0 z0 (x0 + dx) (y0 + dy) (z0 + dz)) =
        map normalize (map winding (box_table x0 y0 z0 (x0 + dx) (y0 + dy) (z0 + dz)))"
    by (simp add: winding_normal_def)
  also have "\<dots> = [(0, 0, 1), (0, 0, 1), (0, 0, - 1), (0, 0, - 1),
                    (1, 0, 0), (1, 0, 0), (- 1, 0, 0), (- 1, 0, 0),
                    (0, 1, 0), (0, 1, 0), (0, - 1, 0), (0, - 1, 0)]"
    unfolding winding_box_table
    by (simp add: normalize_axis [OF p(1)] normalize_axis [OF p(2)] normalize_axis [OF p(3)])
  also have "\<dots> = map (\<lambda>t. vneg (stated_normal t)) (box_table x0 y0 z0 (x0 + dx) (y0 + dy) (z0 + dz))"
    by (simp add: box_table_def stated_normal_def vneg_def)
  finally show ?thesis .
qed


lemma box_table_winding_opposes:
  assumes "x0 < x1" "y0 < y1" "z0 < z1" and t: "t \<in> set (box_table x0 y0 z0 x1 y1 z1)"
  shows "winding_normal t = vneg (stated_normal t)"
proof -
  have "map winding_normal (box_table x0 y0 z0 (x0 + (x1 - x0)) (y0 + (y1 - y0)) (z0 + (z1 - z0))) =
        map (\<lambda>t. vneg (stated_normal t))
          (box_table x0 y0 z0 (x0 + (x1 - x0)) (y0 + (y1 - y0)) (z0 + (z1 - z0)))"
    using assms(1-3) by (intro winding_normal_box_table) simp_all
  then have "map winding_normal (box_table x0 y0 z0 x1 y1 z1) =
        map (\<lambda>t. vneg (stated_normal t)) (box_table x0 y0 z0 x1 y1 z1)"
    by simp
  with t show ?thesis by (simp only: map_eq_conv)
qed

lemma box_table_normal_not_negated:
  assumes "t \<in> set (box_table x0 y0 z0 x1 y1 z1)"
  shows "vneg (stated_normal t) \<noteq> stated_normal t"
  using assms by (auto simp add: box_table_def stated_normal_def vneg_def)

lemma proper_box_triangles:
  assumes "box_proper (x0, y0, z0, x1, y1, z1)"
  shows "box_triangles (x0, y0, z0, x1, y1, z1) = box_table x0 y0 z0 x1 y1 z1"
  using assms by (simp add: box_proper_def box_triangles_table min_def max_def)

lemma grid_mesh_winding_opposes:
  assumes v: "valid_parameters ow ol bt wt wh cols rows"
    and t: "t \<in> set (grid_mesh ow ol bt wt wh cols rows)"
  shows "winding_normal t = vneg (stated_normal t)" "winding_normal t \<noteq> stated_normal t"
proof -
  from grid_mesh_triangle [OF t] obtain b where
    b: "b \<in> set (grid_boxes ow ol bt wt wh cols rows)" and tb: "t \<in> set (box_triangles b)" by blast
  obtain x0 y0 z0 x1 y1 z1 where e: "b = (x0, y0, z0, x1, y1, z1)" by (cases b) auto
  from grid_boxes_proper [OF v b] have pr: "box_proper (x0, y0, z0, x1, y1, z1)" by (simp add: e)
  then have o: "x0 < x1" "y0 < y1" "z0 < z1" by (simp_all add: box_proper_def)
  from tb have tt: "t \<in> set (box_table x0 y0 z0 x1 y1 z1)"
    by (simp add: e proper_box_triangles [OF pr])
  show 1: "winding_normal t = vneg (stated_normal t)"
    by (rule box_table_winding_opposes [OF o tt])
  from box_table_normal_not_negated [OF tt] 1
  show "winding_normal t \<noteq> stated_normal t" by simp
qed

text \<open>
  Claim C2 asks that the normalised cross product of (v2 - v1) and (v3 - v1) equals the
  stated normal for every triangle of the mesh.  The code does the opposite: for every
  valid parameter set and every triangle of the mesh handed to the serializer, that
  vector is the negation of the stated normal, so seen from outside the solid the
  vertices run clockwise.
\<close>

theorem generate_grid_winding_opposes_normal:
  assumes "valid_parameters ow ol bt wt wh cols rows"
    and "t \<in> set (grid_mesh ow ol bt wt wh cols rows)"
  shows "generate_grid w ow ol bt wt wh cols rows f =
           write_ascii_stl w f (solid_name cols rows) (grid_mesh ow ol bt wt wh cols rows)
         \<and> winding_normal t = vneg (stated_normal t)
         \<and> winding_normal t \<noteq> stated_normal t"
  using generate_grid_valid [OF assms(1)] grid_mesh_winding_opposes [OF assms] by simp

theorem generate_grid_winding_opposes_normal_witness:
  "valid_parameters 215 115 2 2 20 5 3
   \<and> ((0, 0, - 1), (0, 0, 0), (215, 0, 0), (215, 115, 0)) \<in> set (grid_mesh 215 115 2 2 20 5 3)
   \<and> stated_normal ((0, 0, - 1), (0, 0, 0), (215, 0, 0), (215, 115, 0)) = (0, 0, - 1)
   \<and> winding_normal ((0, 0, - 1), (0, 0, 0), (215, 0, 0), (215, 115, 0)) = (0, 0, 1)"
proof -
  have s: "stated_normal ((0, 0, - 1), (0, 0, 0), (215, 0, 0), (215, 115, 0)) = (0, 0, - 1)"
    by (simp add: stated_normal_def)
  from generate_grid_winding_opposes_normal
         [OF default_parameters_valid first_triangle_in_default_mesh, of empty_world "''grid.stl''"]
  have "winding_normal ((0, 0, - 1), (0, 0, 0), (215, 0, 0), (215, 115, 0)) =
          vneg (stated_normal ((0, 0, - 1), (0, 0, 0), (215, 0, 0), (215, 115, 0)))"
    by simp
  then have "winding_normal ((0, 0, - 1), (0, 0, 0), (215, 0, 0), (215, 115, 0)) = (0, 0, 1)"
    by (simp add: s vneg_def)
  with default_parameters_valid first_triangle_in_default_mesh s show ?thesis by simp
qed


section \<open>Overlap of the boxes of the layout\<close>































section \<open>What the written text determines\<close>

text \<open>
  The rest of the development relates the text write_ascii_stl produces to the triangle
  list it was given.  Numbers are written by fmt_g6, that is with six significant
  digits.  round_g6 x is x rounded that way; parse_g6 is a decoder of the number syntax
  (sign, digits, optional fraction, optional exponent), used to show that the text of a
  number denotes exactly round_g6 x.  fmt_vec and facet_text spell out the lines of one
  facet; round_vec and round_triangle round every component.
\<close>

lemma scale10_powi: "scale10 a k = a * 10 powi k"
proof (cases "0 \<le> k")
  case True
  then show ?thesis by (simp add: scale10_def power_int_def)
next
  case False
  then show ?thesis by (simp add: scale10_def power_int_def field_simps)
qed

lemma exp_up_bounds:
  "1 \<le> a \<Longrightarrow> 0 \<le> exp_up a \<and> 10 powi (exp_up a) \<le> a \<and> a < 10 powi (exp_up a + 1)"
proof (induction a rule: exp_up.induct)
  case (1 a)
  show ?case
  proof (cases "10 \<le> a")
    case True
    then have "1 \<le> a / 10" by simp
    from "1.IH" [OF True this]
    have ih: "0 \<le> exp_up (a / 10)" "10 powi (exp_up (a / 10)) \<le> a / 10"
      "a / 10 < 10 powi (exp_up (a / 10) + 1)" by simp_all
    have e: "exp_up a = exp_up (a / 10) + 1" using True by (subst exp_up.simps) simp
    have p: "(10::real) powi (exp_up (a / 10) + 1 + 1) = 10 powi (exp_up (a / 10) + 1) * 10"
      by (simp add: power_int_add)
    have q: "(10::real) powi (exp_up (a / 10) + 1) = 10 powi (exp_up (a / 10)) * 10"
      by (simp add: power_int_add)
    from ih show ?thesis unfolding e p by (simp add: q)
  next
    case False
    then have e: "exp_up a = 0" by (subst exp_up.simps) simp
    from False "1.prems" show ?thesis by (simp add: e)
  qed
qed

lemma exp_down_bounds:
  "0 < a \<Longrightarrow> a < 1 \<Longrightarrow> exp_down a < 0 \<and> 10 powi (exp_down a) \<le> a \<and> a < 10 powi (exp_down a + 1)"
proof (induction a rule: exp_down.induct)
  case (1 a)
  from "1.prems" have c: "0 < a \<and> a < 1" by simp
  have e: "exp_down a = exp_down (a * 10) - 1" using c by (subst exp_down.simps) simp
  show ?case
  proof (cases "a * 10 < 1")
    case True
    from "1.IH" [OF c _ True] c
    have ih: "exp_down (a * 10) < 0" "10 powi (exp_down (a * 10)) \<le> a * 10"
      "a * 10 < 10 powi (exp_down (a * 10) + 1)" by simp_all
    have q: "(10::real) powi (exp_down (a * 10)) = 10 powi (exp_down (a * 10) - 1) * 10"
      by (simp add: power_int_diff)
    have p: "(10::real) powi (exp_down (a * 10) + 1) = 10 powi (exp_down (a * 10)) * 10"
      by (simp add: power_int_add)
    from ih show ?thesis unfolding e by (simp add: q p)
  next
    case False
    then have z: "exp_down (a * 10) = 0" by (subst exp_down.simps) simp
    from False c show ?thesis unfolding e z by (simp add: power_int_minus field_simps)
  qed
qed

lemma decexp_bounds:
  assumes "0 < a"
  shows "10 powi (decexp a) \<le> a" "a < 10 powi (decexp a + 1)"
  using assms exp_up_bounds [of a] exp_down_bounds [of a]
  by (auto simp add: decexp_def)


lemma round_half_even_bounds:
  fixes n :: int
  shows "of_int n \<le> y \<Longrightarrow> n \<le> round_half_even y"
    and "y \<le> of_int n \<Longrightarrow> round_half_even y \<le> n"
proof -
  assume "of_int n \<le> y"
  then have "n \<le> \<lfloor>y\<rfloor>" by (simp add: le_floor_iff)
  then show "n \<le> round_half_even y"
    by (simp add: round_half_even_def Let_def)
next
  assume a: "y \<le> of_int n"
  then have "\<lfloor>y\<rfloor> \<le> \<lfloor>of_int n :: real\<rfloor>" by (rule floor_mono)
  then have f: "\<lfloor>y\<rfloor> \<le> n" by simp
  show "round_half_even y \<le> n"
  proof (cases "\<lfloor>y\<rfloor> = n")
    case True
    then have "y - of_int \<lfloor>y\<rfloor> \<le> 0" using a by simp
    then show ?thesis using True by (simp add: round_half_even_def Let_def)
  next
    case False
    with f have "\<lfloor>y\<rfloor> + 1 \<le> n" by simp
    with f show ?thesis by (simp add: round_half_even_def Let_def)
  qed
qed

lemma round_half_even_of_int: "round_half_even (of_int n) = n"
  by (simp add: round_half_even_def Let_def)

lemma scaled_range:
  assumes "0 < a"
  shows "100000 \<le> scale10 a (5 - decexp a)" "scale10 a (5 - decexp a) < 1000000"
proof -
  define q where "q = a / 10 powi (decexp a)"
  have p: "(0::real) < 10 powi (decexp a)" by simp
  have p5: "(10::real) powi 5 = 100000" by (simp add: power_int_def)
  have s: "scale10 a (5 - decexp a) = q * 100000"
    by (simp add: scale10_powi power_int_diff p5 q_def)
  from decexp_bounds(1) [OF assms] p have q1: "1 \<le> q"
    unfolding q_def by (simp add: field_simps)
  have "(10::real) powi (decexp a + 1) = 10 powi (decexp a) * 10" by (simp add: power_int_add)
  with decexp_bounds(2) [OF assms] p have q2: "q < 10"
    unfolding q_def by (simp add: field_simps)
  from q1 show "100000 \<le> scale10 a (5 - decexp a)" unfolding s by linarith
  from q2 show "scale10 a (5 - decexp a) < 1000000" unfolding s by linarith
qed

lemma sig6_range:
  assumes "0 < a" and "sig6 a = (d, e)"
  shows "100000 \<le> d" "d \<le> 999999"
proof -
  let ?r = "round_half_even (scale10 a (5 - decexp a))"
  have lo: "100000 \<le> ?r"
    using round_half_even_bounds(1) [of 100000 "scale10 a (5 - decexp a)"] scaled_range(1) [OF assms(1)]
    by simp
  have hi: "?r \<le> 1000000"
    using round_half_even_bounds(2) [of "scale10 a (5 - decexp a)" 1000000] scaled_range(2) [OF assms(1)]
    by simp
  from assms(2) lo hi show "100000 \<le> d" "d \<le> 999999"
    by (auto simp add: sig6_def Let_def split: if_splits)
qed


definition is_digit :: "char \<Rightarrow> bool" where
  "is_digit c = (c \<in> set ''0123456789'')"

definition digit_of :: "char \<Rightarrow> nat" where
  "digit_of c = length (takeWhile (\<lambda>d. d \<noteq> c) ''0123456789'')"

definition digits_val :: "string \<Rightarrow> nat" where
  "digits_val s = foldl (\<lambda>n c. 10 * n + digit_of c) 0 s"

lemma below_ten:
  "(d::nat) < 10 \<Longrightarrow> d = 0 \<or> d = 1 \<or> d = 2 \<or> d = 3 \<or> d = 4 \<or> d = 5 \<or> d = 6 \<or> d = 7 \<or> d = 8 \<or> d = 9"
  by arith

lemma digit_char_props: "is_digit (digit_char d) \<and> digit_of (digit_char d) = d mod 10"
proof -
  have "d mod 10 < 10" by simp
  from below_ten [OF this] show ?thesis
    by (elim disjE) (simp_all add: digit_char_def is_digit_def digit_of_def)
qed

lemma digits_val_foldl:
  "foldl (\<lambda>n c. 10 * n + digit_of c) k s = k * 10 ^ length s + digits_val s"
proof (induction s rule: rev_induct)
  case Nil
  show ?case by (simp add: digits_val_def)
next
  case (snoc c s)
  then show ?case by (simp add: digits_val_def algebra_simps)
qed

lemma digits_val_append:
  "digits_val (xs @ ys) = digits_val xs * 10 ^ length ys + digits_val ys"
  by (simp add: digits_val_def digits_val_foldl [of "foldl (\<lambda>n c. 10 * n + digit_of c) 0 xs" ys, unfolded digits_val_def])

lemma digits_val_single: "digits_val [c] = digit_of c"
  by (simp add: digits_val_def)

lemma digits_val_Nil: "digits_val [] = 0"
  by (simp add: digits_val_def)

lemma str_nat_props: "list_all is_digit (str_nat n) \<and> digits_val (str_nat n) = n \<and> str_nat n \<noteq> []"
proof (induction n rule: str_nat.induct)
  case (1 n)
  show ?case
  proof (cases "n < 10")
    case True
    then have e: "str_nat n = [digit_char n]" by (subst str_nat.simps) simp
    from True show ?thesis by (simp add: e digits_val_single digit_char_props)
  next
    case False
    then have e: "str_nat n = str_nat (n div 10) @ [digit_char (n mod 10)]"
      by (subst str_nat.simps) simp
    from "1.IH" [OF False] show ?thesis
      by (simp add: e digits_val_append digits_val_single digit_char_props)
  qed
qed

lemma length_str_nat_small: "n < 10 \<Longrightarrow> length (str_nat n) = 1"
  by (subst str_nat.simps) simp

lemma length_str_nat_step: "10 \<le> n \<Longrightarrow> length (str_nat n) = Suc (length (str_nat (n div 10)))"
  by (subst str_nat.simps) simp

lemma length_str_nat_six:
  assumes "100000 \<le> d" "d \<le> 999999"
  shows "length (str_nat d) = 6"
proof -
  have a: "10 \<le> d" "10 \<le> d div 10" "10 \<le> d div 10 div 10" "10 \<le> d div 10 div 10 div 10"
    "10 \<le> d div 10 div 10 div 10 div 10" "d div 10 div 10 div 10 div 10 div 10 < 10"
    using assms by simp_all
  show ?thesis
    by (simp add: length_str_nat_step a length_str_nat_small)
qed


definition frac_val :: "string \<Rightarrow> real" where
  "frac_val fp = of_nat (digits_val fp) / 10 ^ length fp"

definition mant_val :: "string \<Rightarrow> real" where
  "mant_val s =
     of_nat (digits_val (takeWhile (\<lambda>c. c \<noteq> CHR ''.'') s)) +
     frac_val (drop 1 (dropWhile (\<lambda>c. c \<noteq> CHR ''.'') s))"

definition exp_val :: "string \<Rightarrow> int" where
  "exp_val s =
     (case s of [] \<Rightarrow> 0
      | c # ds \<Rightarrow> if c = CHR ''-'' then - int (digits_val ds) else int (digits_val ds))"

definition unsigned_val :: "string \<Rightarrow> real" where
  "unsigned_val s =
     mant_val (takeWhile (\<lambda>c. c \<noteq> CHR ''e'') s) *
     10 powi exp_val (drop 1 (dropWhile (\<lambda>c. c \<noteq> CHR ''e'') s))"

definition parse_g6 :: "string \<Rightarrow> real" where
  "parse_g6 s =
     (case s of [] \<Rightarrow> 0
      | c # r \<Rightarrow> if c = CHR ''-'' then - unsigned_val r else unsigned_val s)"

lemma is_digit_not_special:
  "is_digit c \<Longrightarrow> c \<noteq> CHR ''.'' \<and> c \<noteq> CHR ''e'' \<and> c \<noteq> CHR ''-'' \<and> c \<noteq> CHR ''+''
                  \<and> c \<noteq> CHR '' '' \<and> c \<noteq> CHR ''\<newline>''"
  by (auto simp add: is_digit_def)

lemma strip_zeros_decomp: "\<exists>k. s = strip_zeros s @ replicate k (CHR ''0'')"
proof -
  let ?P = "\<lambda>c. c = CHR ''0''"
  have "rev s = takeWhile ?P (rev s) @ dropWhile ?P (rev s)" by simp
  then have "s = rev (dropWhile ?P (rev s)) @ rev (takeWhile ?P (rev s))"
    by (metis rev_append rev_rev_ident)
  moreover have "\<forall>c \<in> set (takeWhile ?P (rev s)). c = CHR ''0''"
    by (auto dest: set_takeWhileD)
  then have "replicate (length (takeWhile ?P (rev s))) (CHR ''0'') = takeWhile ?P (rev s)"
    by (rule replicate_length_same)
  then have "rev (takeWhile ?P (rev s)) = replicate (length (takeWhile ?P (rev s))) (CHR ''0'')"
    by (metis rev_replicate)
  ultimately have "s = strip_zeros s @ replicate (length (takeWhile ?P (rev s))) (CHR ''0'')"
    by (simp add: strip_zeros_def)
  then show ?thesis ..
qed

lemma digit_of_zero: "digit_of (CHR ''0'') = 0"
  by (simp add: digit_of_def)

lemma digits_val_zeros: "digits_val (replicate k (CHR ''0'')) = 0"
proof (induction k)
  case 0
  show ?case by (simp add: digits_val_Nil)
next
  case (Suc k)
  have "digits_val (replicate (Suc k) (CHR ''0'')) = digits_val ([CHR ''0''] @ replicate k (CHR ''0''))"
    by simp
  also have "\<dots> = 0"
    unfolding digits_val_append by (simp add: Suc.IH digits_val_single digit_of_zero)
  finally show ?case .
qed

lemma frac_val_strip: "frac_val (strip_zeros s) = frac_val s"
proof -
  from strip_zeros_decomp [of s] obtain k where k: "s = strip_zeros s @ replicate k (CHR ''0'')" ..
  have "frac_val s = frac_val (strip_zeros s @ replicate k (CHR ''0''))" using k by simp
  also have "\<dots> = frac_val (strip_zeros s)"
    by (simp add: frac_val_def digits_val_append digits_val_zeros power_add)
  finally show ?thesis by simp
qed

lemma strip_zeros_subset: "set (strip_zeros s) \<subseteq> set s"
  by (auto simp add: strip_zeros_def dest: set_dropWhileD)

lemma frac_val_Nil: "frac_val [] = 0"
  by (simp add: frac_val_def digits_val_Nil)

lemma with_fraction_val:
  assumes "list_all is_digit ip"
  shows "mant_val (with_fraction ip fp) = of_nat (digits_val ip) + frac_val fp"
proof -
  have nd: "\<forall>c \<in> set ip. c \<noteq> CHR ''.''"
    using assms is_digit_not_special by (auto simp add: list_all_iff)
  then have tw: "takeWhile (\<lambda>c. c \<noteq> CHR ''.'') ip = ip" by (simp add: takeWhile_eq_all_conv)
  from nd have dw: "dropWhile (\<lambda>c. c \<noteq> CHR ''.'') ip = []" by (simp add: dropWhile_eq_Nil_conv)
  show ?thesis
  proof (cases "strip_zeros fp = []")
    case True
    then have "frac_val fp = 0" using frac_val_strip [of fp] by (simp add: frac_val_Nil)
    with True show ?thesis
      by (simp add: with_fraction_def mant_val_def tw dw frac_val_Nil)
  next
    case False
    have tw2: "takeWhile (\<lambda>c. c \<noteq> CHR ''.'') (ip @ CHR ''.'' # strip_zeros fp) = ip"
      using nd by (simp add: takeWhile_append2)
    have dw2: "dropWhile (\<lambda>c. c \<noteq> CHR ''.'') (ip @ CHR ''.'' # strip_zeros fp) = CHR ''.'' # strip_zeros fp"
      using nd by (simp add: dropWhile_append2)
    from False show ?thesis
      by (simp add: with_fraction_def mant_val_def tw2 dw2 frac_val_strip)
  qed
qed

lemma with_fraction_chars:
  assumes "list_all is_digit ip" "list_all is_digit fp"
  shows "\<forall>c \<in> set (with_fraction ip fp). is_digit c \<or> c = CHR ''.''"
  using assms strip_zeros_subset [of fp]
  by (auto simp add: with_fraction_def Let_def list_all_iff)

lemma with_fraction_hd:
  assumes "ip \<noteq> []"
  shows "with_fraction ip fp \<noteq> [] \<and> hd (with_fraction ip fp) = hd ip"
  using assms by (simp add: with_fraction_def Let_def)


definition round_g6 :: "real \<Rightarrow> real" where
  "round_g6 x =
     (if x = 0 then 0
      else let (d, e) = sig6 \<bar>x\<bar>;
               v = of_nat d * 10 powi (e - 5)
           in if x < 0 then - v else v)"

lemma take_drop_val:
  assumes "k \<le> length ds"
  shows "of_nat (digits_val (take k ds)) + frac_val (drop k ds) =
         of_nat (digits_val ds) / 10 ^ (length ds - k)"
proof -
  have "digits_val ds = digits_val (take k ds @ drop k ds)" by simp
  also have "\<dots> = digits_val (take k ds) * 10 ^ (length ds - k) + digits_val (drop k ds)"
    unfolding digits_val_append by simp
  finally have "real (digits_val ds) =
      real (digits_val (take k ds)) * 10 ^ (length ds - k) + real (digits_val (drop k ds))"
    by simp
  then show ?thesis by (simp add: frac_val_def field_simps)
qed

lemma no_e_split:
  assumes "\<forall>c \<in> set m. is_digit c \<or> c = CHR ''.''"
  shows "takeWhile (\<lambda>c. c \<noteq> CHR ''e'') (m @ r) = m @ takeWhile (\<lambda>c. c \<noteq> CHR ''e'') r"
    and "dropWhile (\<lambda>c. c \<noteq> CHR ''e'') (m @ r) = dropWhile (\<lambda>c. c \<noteq> CHR ''e'') r"
proof -
  have ne: "\<forall>c \<in> set m. c \<noteq> CHR ''e''"
    using assms is_digit_not_special by auto
  then show "takeWhile (\<lambda>c. c \<noteq> CHR ''e'') (m @ r) = m @ takeWhile (\<lambda>c. c \<noteq> CHR ''e'') r"
    by (simp add: takeWhile_append2)
  from ne show "dropWhile (\<lambda>c. c \<noteq> CHR ''e'') (m @ r) = dropWhile (\<lambda>c. c \<noteq> CHR ''e'') r"
    by (simp add: dropWhile_append2)
qed

lemma unsigned_val_mantissa:
  assumes "\<forall>c \<in> set m. is_digit c \<or> c = CHR ''.''"
  shows "unsigned_val m = mant_val m"
proof -
  have ne: "\<forall>c \<in> set m. c \<noteq> CHR ''e''"
    using assms is_digit_not_special by auto
  then have tw: "takeWhile (\<lambda>c. c \<noteq> CHR ''e'') m = m" by (simp add: takeWhile_eq_all_conv)
  from ne have dw: "dropWhile (\<lambda>c. c \<noteq> CHR ''e'') m = []" by (simp add: dropWhile_eq_Nil_conv)
  show ?thesis by (simp add: unsigned_val_def exp_val_def tw dw)
qed

lemma zeros_digits: "list_all is_digit (replicate k (CHR ''0''))"
  by (induction k) (simp_all add: is_digit_def)

lemma list_all_take_drop:
  "list_all P xs \<Longrightarrow> list_all P (take k xs) \<and> list_all P (drop k xs)"
  by (auto simp add: list_all_iff dest: in_set_takeD in_set_dropD)

lemma div_pow10:
  fixes x :: real
  assumes "k = - int m"
  shows "x / 10 ^ m = x * 10 powi k"
  unfolding assms by (simp add: power_int_minus field_simps)

lemma fixed_notation_val:
  assumes d: "100000 \<le> d" "d \<le> 999999" and e: "- 4 \<le> e" "e < 6"
  shows "unsigned_val (fixed_notation d e) = of_nat d * 10 powi (e - 5)"
    and "\<forall>c \<in> set (fixed_notation d e). is_digit c \<or> c = CHR ''.''"
    and "fixed_notation d e \<noteq> [] \<and> is_digit (hd (fixed_notation d e))"
proof -
  note p = str_nat_props [of d]
  from p have dig: "list_all is_digit (str_nat d)" and val: "digits_val (str_nat d) = d" by simp_all
  have len: "length (str_nat d) = 6" by (rule length_str_nat_six [OF d])
  have hd_digit: "is_digit (hd (str_nat d))"
    using dig p by (cases "str_nat d") simp_all
  have chars: "\<forall>c \<in> set (fixed_notation d e). is_digit c \<or> c = CHR ''.''"
  proof (cases "0 \<le> e")
    case True
    from with_fraction_chars [OF list_all_take_drop [OF dig, THEN conjunct1]
           list_all_take_drop [OF dig, THEN conjunct2], of "nat e + 1" "nat e + 1"] True
    show ?thesis by (simp add: fixed_notation_def Let_def)
  next
    case False
    have z: "list_all is_digit ''0''" by (simp add: is_digit_def)
    have "list_all is_digit (replicate (nat (- e - 1)) (CHR ''0'') @ str_nat d)"
      using dig zeros_digits by simp
    from with_fraction_chars [OF z this] False
    show ?thesis by (simp add: fixed_notation_def Let_def)
  qed
  then show "\<forall>c \<in> set (fixed_notation d e). is_digit c \<or> c = CHR ''.''" .
  show "fixed_notation d e \<noteq> [] \<and> is_digit (hd (fixed_notation d e))"
  proof (cases "0 \<le> e")
    case True
    have ne: "take (nat e + 1) (str_nat d) \<noteq> []" using len by auto
    have "hd (take (nat e + 1) (str_nat d)) = hd (str_nat d)" by simp
    with with_fraction_hd [OF ne, of "drop (nat e + 1) (str_nat d)"] hd_digit True
    show ?thesis by (simp add: fixed_notation_def Let_def)
  next
    case False
    have "''0'' \<noteq> []" by simp
    from with_fraction_hd [OF this, of "replicate (nat (- e - 1)) (CHR ''0'') @ str_nat d"] False
    show ?thesis by (simp add: fixed_notation_def Let_def is_digit_def)
  qed
  show "unsigned_val (fixed_notation d e) = of_nat d * 10 powi (e - 5)"
  proof (cases "0 \<le> e")
    case True
    with e have k: "nat e + 1 \<le> length (str_nat d)" by (simp add: len)
    have "unsigned_val (fixed_notation d e) = mant_val (fixed_notation d e)"
      by (rule unsigned_val_mantissa [OF chars])
    also have "\<dots> = of_nat (digits_val (take (nat e + 1) (str_nat d)))
                      + frac_val (drop (nat e + 1) (str_nat d))"
      using True with_fraction_val [OF list_all_take_drop [OF dig, THEN conjunct1], of "nat e + 1"]
      by (simp add: fixed_notation_def Let_def)
    also have "\<dots> = of_nat d / 10 ^ (6 - (nat e + 1))"
      using take_drop_val [OF k] by (simp add: val len)
    also have "\<dots> = of_nat d * 10 powi (e - 5)"
    proof -
      have "e - 5 = - int (6 - (nat e + 1))" using True e by simp
      then show ?thesis by (rule div_pow10)
    qed
    finally show ?thesis .
  next
    case False
    let ?z = "replicate (nat (- e - 1)) (CHR ''0'')"
    have z: "list_all is_digit ''0''" by (simp add: is_digit_def)
    have "unsigned_val (fixed_notation d e) = mant_val (fixed_notation d e)"
      by (rule unsigned_val_mantissa [OF chars])
    also have "\<dots> = of_nat (digits_val ''0'') + frac_val (?z @ str_nat d)"
      using False with_fraction_val [OF z, of "?z @ str_nat d"]
      by (simp add: fixed_notation_def Let_def)
    also have "\<dots> = of_nat d / 10 ^ (nat (- e - 1) + 6)"
      by (simp add: frac_val_def digits_val_append digits_val_zeros val len digits_val_single digit_of_zero)
    also have "\<dots> = of_nat d * 10 powi (e - 5)"
    proof -
      have "e - 5 = - int (nat (- e - 1) + 6)" using False by simp
      then show ?thesis by (rule div_pow10)
    qed
    finally show ?thesis .
  qed
qed


definition g6_char :: "char \<Rightarrow> bool" where
  "g6_char c = (is_digit c \<or> c = CHR ''.'' \<or> c = CHR ''e'' \<or> c = CHR ''+'' \<or> c = CHR ''-'')"

lemma g6_char_not_separator: "g6_char c \<Longrightarrow> c \<noteq> CHR '' '' \<and> c \<noteq> CHR ''\<newline>''"
  using is_digit_not_special [of c] by (auto simp add: g6_char_def)

lemma digits_val_Cons: "digits_val (c # s) = digit_of c * 10 ^ length s + digits_val s"
  using digits_val_append [of "[c]" s] by (simp add: digits_val_single)

lemma exponent_digits_val:
  "digits_val (if n < 10 then ''0'' @ str_nat n else str_nat n) = n"
  "list_all is_digit (if n < 10 then ''0'' @ str_nat n else str_nat n)"
  using str_nat_props [of n]
  by (simp_all add: digits_val_Cons digit_of_zero is_digit_def)

lemma exponent_notation_val:
  assumes d: "100000 \<le> d" "d \<le> 999999"
  shows "unsigned_val (exponent_notation d e) = of_nat d * 10 powi (e - 5)"
    and "\<forall>c \<in> set (exponent_notation d e). g6_char c"
    and "exponent_notation d e \<noteq> [] \<and> is_digit (hd (exponent_notation d e))"
proof -
  note p = str_nat_props [of d]
  from p have dig: "list_all is_digit (str_nat d)" and val: "digits_val (str_nat d) = d" by simp_all
  have len: "length (str_nat d) = 6" by (rule length_str_nat_six [OF d])
  define m where "m = with_fraction (take 1 (str_nat d)) (drop 1 (str_nat d))"
  define n where "n = nat \<bar>e\<bar>"
  define ex where "ex = (if n < 10 then ''0'' @ str_nat n else str_nat n)"
  define sg where "sg = (if e < 0 then CHR ''-'' else CHR ''+'')"
  have form: "exponent_notation d e = m @ CHR ''e'' # sg # ex"
    by (simp add: exponent_notation_def Let_def m_def n_def ex_def sg_def)
  have mchars: "\<forall>c \<in> set m. is_digit c \<or> c = CHR ''.''"
    unfolding m_def
    by (rule with_fraction_chars [OF list_all_take_drop [OF dig, THEN conjunct1]
              list_all_take_drop [OF dig, THEN conjunct2]])
  have exd: "digits_val ex = n" "list_all is_digit ex"
    unfolding ex_def by (rule exponent_digits_val)+
  have ne1: "take 1 (str_nat d) \<noteq> []" using len by auto
  have hd1: "hd (take 1 (str_nat d)) = hd (str_nat d)" by simp
  have hd_digit: "is_digit (hd (str_nat d))"
    using dig p by (cases "str_nat d") simp_all
  from with_fraction_hd [OF ne1, of "drop 1 (str_nat d)"] hd1 hd_digit
  have mhd: "m \<noteq> []" "is_digit (hd m)" by (simp_all add: m_def)
  show "exponent_notation d e \<noteq> [] \<and> is_digit (hd (exponent_notation d e))"
    using mhd by (simp add: form)
  show "\<forall>c \<in> set (exponent_notation d e). g6_char c"
    using mchars exd(2) by (auto simp add: form g6_char_def sg_def list_all_iff)
  have mv: "mant_val m = of_nat d / 10 ^ 5"
  proof -
    have k: "1 \<le> length (str_nat d)" by (simp add: len)
    have "mant_val m = of_nat (digits_val (take 1 (str_nat d))) + frac_val (drop 1 (str_nat d))"
      unfolding m_def by (rule with_fraction_val [OF list_all_take_drop [OF dig, THEN conjunct1]])
    also have "\<dots> = of_nat d / 10 ^ (6 - 1)"
      using take_drop_val [OF k] by (simp add: val len)
    finally show ?thesis by simp
  qed
  have tw: "takeWhile (\<lambda>c. c \<noteq> CHR ''e'') (m @ CHR ''e'' # sg # ex) = m"
    by (simp add: no_e_split(1) [OF mchars])
  have dw: "dropWhile (\<lambda>c. c \<noteq> CHR ''e'') (m @ CHR ''e'' # sg # ex) = CHR ''e'' # sg # ex"
    by (simp add: no_e_split(2) [OF mchars])
  have ev: "exp_val (sg # ex) = e"
    by (simp add: exp_val_def sg_def exd(1) n_def)
  have pw: "(10::real) powi (e - 5) = 10 powi e / 10 ^ 5"
    by (simp add: power_int_diff)
  have "unsigned_val (exponent_notation d e) = of_nat d / 10 ^ 5 * 10 powi e"
    by (simp only: form unsigned_val_def tw dw ev mv drop_Suc_Cons drop_0 One_nat_def)
  also have "\<dots> = of_nat d * 10 powi (e - 5)"
    unfolding pw by simp
  finally show "unsigned_val (exponent_notation d e) = of_nat d * 10 powi (e - 5)" .
qed

lemma fixed_notation_g6_chars:
  assumes "100000 \<le> d" "d \<le> 999999" "- 4 \<le> e" "e < 6"
  shows "\<forall>c \<in> set (fixed_notation d e). g6_char c"
  using fixed_notation_val(2) [OF assms] by (auto simp add: g6_char_def)

lemma is_digit_not_minus: "is_digit c \<Longrightarrow> c \<noteq> CHR ''-''"
  using is_digit_not_special by blast

lemma parse_g6_unsigned:
  assumes "s \<noteq> []" "is_digit (hd s)"
  shows "parse_g6 s = unsigned_val s"
  using assms is_digit_not_minus [of "hd s"] by (cases s) (simp_all add: parse_g6_def)

lemma parse_fmt_g6: "parse_g6 (fmt_g6 x) = round_g6 x"
proof (cases "x = 0")
  case True
  have "parse_g6 ''0'' = 0"
    by (simp add: parse_g6_def unsigned_val_def mant_val_def exp_val_def frac_val_def
          digits_val_def digit_of_def)
  with True show ?thesis by (simp add: fmt_g6_def round_g6_def)
next
  case False
  then have pos: "0 < \<bar>x\<bar>" by simp
  obtain d e where de: "sig6 \<bar>x\<bar> = (d, e)" by (cases "sig6 \<bar>x\<bar>") auto
  note r = sig6_range [OF pos de]
  define body where "body = (if - 4 \<le> e \<and> e < 6 then fixed_notation d e else exponent_notation d e)"
  have bv: "unsigned_val body = of_nat d * 10 powi (e - 5)"
    and bh: "body \<noteq> [] \<and> is_digit (hd body)"
    using fixed_notation_val(1,3) [OF r] exponent_notation_val(1,3) [OF r]
    by (auto simp add: body_def)
  have f: "fmt_g6 x = (if x < 0 then ''-'' @ body else body)"
    using False by (simp add: fmt_g6_def de body_def)
  show ?thesis
  proof (cases "x < 0")
    case True
    then have de': "sig6 (- x) = (d, e)" using de by simp
    from True show ?thesis
      by (simp add: f parse_g6_def bv round_g6_def de')
  next
    case False
    with \<open>x \<noteq> 0\<close> have de': "sig6 x = (d, e)" using de by simp
    have "parse_g6 body = unsigned_val body"
      using bh by (intro parse_g6_unsigned) simp_all
    with False \<open>x \<noteq> 0\<close> show ?thesis
      by (simp add: f bv round_g6_def de')
  qed
qed

lemma fmt_g6_chars: "\<forall>c \<in> set (fmt_g6 x). g6_char c"
proof (cases "x = 0")
  case True
  then show ?thesis by (simp add: fmt_g6_def g6_char_def is_digit_def)
next
  case False
  then have pos: "0 < \<bar>x\<bar>" by simp
  obtain d e where de: "sig6 \<bar>x\<bar> = (d, e)" by (cases "sig6 \<bar>x\<bar>") auto
  note r = sig6_range [OF pos de]
  define body where "body = (if - 4 \<le> e \<and> e < 6 then fixed_notation d e else exponent_notation d e)"
  have b: "\<forall>c \<in> set body. g6_char c"
  proof (cases "- 4 \<le> e \<and> e < 6")
    case True
    then have "- 4 \<le> e" "e < 6" by simp_all
    from fixed_notation_g6_chars [OF r this] show ?thesis
      unfolding body_def if_P [OF True] .
  next
    case False
    show ?thesis
      unfolding body_def if_not_P [OF False] by (rule exponent_notation_val(2) [OF r])
  qed
  have f: "fmt_g6 x = (if x < 0 then ''-'' @ body else body)"
    using False by (simp add: fmt_g6_def de body_def)
  have m: "g6_char (CHR ''-'')" by (simp add: g6_char_def)
  from b m show ?thesis by (simp add: f)
qed

lemma fmt_g6_eq_round: "fmt_g6 x = fmt_g6 y \<Longrightarrow> round_g6 x = round_g6 y"
  using parse_fmt_g6 [of x] parse_fmt_g6 [of y] by simp

definition fmt_vec :: "Vec3 \<Rightarrow> string" where
  "fmt_vec v = (case v of (x, y, z) \<Rightarrow> fmt_g6 x @ '' '' @ fmt_g6 y @ '' '' @ fmt_g6 z)"

definition facet_text :: "Triangle \<Rightarrow> string" where
  "facet_text t =
     (case t of (normal, v1, v2, v3) \<Rightarrow>
        ''  facet normal '' @ fmt_vec normal @ ''\<newline>'' @
        ''    outer loop\<newline>'' @
        ''      vertex '' @ fmt_vec v1 @ ''\<newline>'' @
        ''      vertex '' @ fmt_vec v2 @ ''\<newline>'' @
        ''      vertex '' @ fmt_vec v3 @ ''\<newline>'' @
        ''    endloop\<newline>'' @
        ''  endfacet\<newline>'')"

lemma write_facet_append: "write_facet f t = f @ facet_text t"
  by (cases t rule: prod_cases4; cases "fst t"; cases "fst (snd t)"; cases "fst (snd (snd t))"; cases "snd (snd (snd t))")
     (simp add: write_facet_def facet_text_def fmt_vec_def Let_def)

lemma foldl_write_facet: "foldl write_facet f ts = f @ concat (map facet_text ts)"
proof (induction ts arbitrary: f)
  case Nil
  show ?case by simp
next
  case (Cons t ts)
  have "foldl write_facet f (t # ts) = foldl write_facet (write_facet f t) ts" by simp
  also have "\<dots> = write_facet f t @ concat (map facet_text ts)" by (rule Cons.IH)
  also have "\<dots> = f @ concat (map facet_text (t # ts))" by (simp add: write_facet_append)
  finally show ?case .
qed

lemma stl_text_grammar:
  "stl_text name triangles =
     ''solid '' @ name @ ''\<newline>'' @
     concat (map facet_text triangles) @
     ''endsolid '' @ name @ ''\<newline>''"
  by (simp add: stl_text_def Let_def foldl_write_facet)


definition round_vec :: "Vec3 \<Rightarrow> Vec3" where
  "round_vec v = (case v of (x, y, z) \<Rightarrow> (round_g6 x, round_g6 y, round_g6 z))"

definition round_triangle :: "Triangle \<Rightarrow> Triangle" where
  "round_triangle t =
     (case t of (normal, v1, v2, v3) \<Rightarrow> (round_vec normal, round_vec v1, round_vec v2, round_vec v3))"

lemma split_at_separator:
  assumes "c \<notin> set a" "c \<notin> set a'" "a @ c # r = a' @ c # r'"
  shows "a = a' \<and> r = r'"
proof -
  have na: "\<And>x. x \<in> set a \<Longrightarrow> x \<noteq> c" using assms(1) by auto
  have na': "\<And>x. x \<in> set a' \<Longrightarrow> x \<noteq> c" using assms(2) by auto
  have "takeWhile (\<lambda>x. x \<noteq> c) (a @ c # r) = a"
    using takeWhile_append2 [of a "\<lambda>x. x \<noteq> c" "c # r", OF na] by simp
  moreover have "takeWhile (\<lambda>x. x \<noteq> c) (a' @ c # r') = a'"
    using takeWhile_append2 [of a' "\<lambda>x. x \<noteq> c" "c # r'", OF na'] by simp
  ultimately have "a = a'" using assms(3) by simp
  with assms(3) show ?thesis by simp
qed

lemma fmt_g6_no_separator: "CHR '' '' \<notin> set (fmt_g6 x)" "CHR ''\<newline>'' \<notin> set (fmt_g6 x)"
  using fmt_g6_chars [of x] g6_char_not_separator by blast+

lemma fmt_vec_line_inject:
  assumes "fmt_vec v @ CHR ''\<newline>'' # r = fmt_vec w @ CHR ''\<newline>'' # r'"
  shows "round_vec v = round_vec w \<and> r = r'"
proof -
  obtain x y z where v: "v = (x, y, z)" by (cases v) auto
  obtain x' y' z' where w: "w = (x', y', z')" by (cases w) auto
  from assms have
    "fmt_g6 x @ CHR '' '' # (fmt_g6 y @ CHR '' '' # (fmt_g6 z @ CHR ''\<newline>'' # r)) =
     fmt_g6 x' @ CHR '' '' # (fmt_g6 y' @ CHR '' '' # (fmt_g6 z' @ CHR ''\<newline>'' # r'))"
    by (simp add: v w fmt_vec_def)
  from split_at_separator [OF fmt_g6_no_separator(1) fmt_g6_no_separator(1) this]
  have 1: "fmt_g6 x = fmt_g6 x'"
    and "fmt_g6 y @ CHR '' '' # (fmt_g6 z @ CHR ''\<newline>'' # r) =
         fmt_g6 y' @ CHR '' '' # (fmt_g6 z' @ CHR ''\<newline>'' # r')" by simp_all
  from split_at_separator [OF fmt_g6_no_separator(1) fmt_g6_no_separator(1) this(2)]
  have 2: "fmt_g6 y = fmt_g6 y'"
    and "fmt_g6 z @ CHR ''\<newline>'' # r = fmt_g6 z' @ CHR ''\<newline>'' # r'" by simp_all
  from split_at_separator [OF fmt_g6_no_separator(2) fmt_g6_no_separator(2) this(2)]
  have 3: "fmt_g6 z = fmt_g6 z'" and 4: "r = r'" by simp_all
  from fmt_g6_eq_round [OF 1] fmt_g6_eq_round [OF 2] fmt_g6_eq_round [OF 3] 4 show ?thesis
    by (simp add: v w round_vec_def)
qed

lemma facet_text_inject:
  assumes "facet_text t @ r = facet_text u @ r'"
  shows "round_triangle t = round_triangle u \<and> r = r'"
proof -
  obtain n v1 v2 v3 where t: "t = (n, v1, v2, v3)" by (cases t) auto
  obtain m w1 w2 w3 where u: "u = (m, w1, w2, w3)" by (cases u) auto
  from assms have
    "fmt_vec n @ CHR ''\<newline>'' # (''    outer loop\<newline>'' @ ''      vertex '' @ fmt_vec v1 @ ''\<newline>'' @
        ''      vertex '' @ fmt_vec v2 @ ''\<newline>'' @ ''      vertex '' @ fmt_vec v3 @ ''\<newline>'' @
        ''    endloop\<newline>'' @ ''  endfacet\<newline>'' @ r) =
     fmt_vec m @ CHR ''\<newline>'' # (''    outer loop\<newline>'' @ ''      vertex '' @ fmt_vec w1 @ ''\<newline>'' @
        ''      vertex '' @ fmt_vec w2 @ ''\<newline>'' @ ''      vertex '' @ fmt_vec w3 @ ''\<newline>'' @
        ''    endloop\<newline>'' @ ''  endfacet\<newline>'' @ r')"
    by (simp add: t u facet_text_def)
  from fmt_vec_line_inject [OF this]
  have 0: "round_vec n = round_vec m"
    and "fmt_vec v1 @ CHR ''\<newline>'' # (''      vertex '' @ fmt_vec v2 @ ''\<newline>'' @
           ''      vertex '' @ fmt_vec v3 @ ''\<newline>'' @ ''    endloop\<newline>'' @ ''  endfacet\<newline>'' @ r) =
         fmt_vec w1 @ CHR ''\<newline>'' # (''      vertex '' @ fmt_vec w2 @ ''\<newline>'' @
           ''      vertex '' @ fmt_vec w3 @ ''\<newline>'' @ ''    endloop\<newline>'' @ ''  endfacet\<newline>'' @ r')"
    by simp_all
  from fmt_vec_line_inject [OF this(2)]
  have 1: "round_vec v1 = round_vec w1"
    and "fmt_vec v2 @ CHR ''\<newline>'' # (''      vertex '' @ fmt_vec v3 @ ''\<newline>'' @
           ''    endloop\<newline>'' @ ''  endfacet\<newline>'' @ r) =
         fmt_vec w2 @ CHR ''\<newline>'' # (''      vertex '' @ fmt_vec w3 @ ''\<newline>'' @
           ''    endloop\<newline>'' @ ''  endfacet\<newline>'' @ r')"
    by simp_all
  from fmt_vec_line_inject [OF this(2)]
  have 2: "round_vec v2 = round_vec w2"
    and "fmt_vec v3 @ CHR ''\<newline>'' # (''    endloop\<newline>'' @ ''  endfacet\<newline>'' @ r) =
         fmt_vec w3 @ CHR ''\<newline>'' # (''    endloop\<newline>'' @ ''  endfacet\<newline>'' @ r')"
    by simp_all
  from fmt_vec_line_inject [OF this(2)]
  have 3: "round_vec v3 = round_vec w3" and 4: "r = r'" by simp_all
  from 0 1 2 3 4 show ?thesis by (simp add: t u round_triangle_def)
qed

lemma facet_text_nonempty: "facet_text t \<noteq> []"
  by (cases t) (simp add: facet_text_def)

lemma facets_inject:
  assumes "concat (map facet_text ts) @ tail = concat (map facet_text us) @ tail"
  shows "map round_triangle ts = map round_triangle us"
  using assms
proof (induction ts arbitrary: us)
  case Nil
  show ?case
  proof (cases us)
    case Nil
    then show ?thesis by simp
  next
    case (Cons u us')
    with Nil.prems have "tail = facet_text u @ concat (map facet_text us') @ tail" by simp
    then have "length tail = length (facet_text u @ concat (map facet_text us') @ tail)"
      by (rule arg_cong)
    then have "length (facet_text u) = 0" by simp
    with facet_text_nonempty [of u] show ?thesis by simp
  qed
next
  case (Cons t ts')
  show ?case
  proof (cases us)
    case Nil
    with Cons.prems have "facet_text t @ concat (map facet_text ts') @ tail = tail" by simp
    then have "length (facet_text t @ concat (map facet_text ts') @ tail) = length tail"
      by (rule arg_cong)
    then have "length (facet_text t) = 0" by simp
    with facet_text_nonempty [of t] show ?thesis by simp
  next
    case (Cons u us')
    with Cons.prems have
      "facet_text t @ (concat (map facet_text ts') @ tail) = facet_text u @ (concat (map facet_text us') @ tail)"
      by simp
    from facet_text_inject [OF this] Cons.IH [of us'] Cons show ?thesis by simp
  qed
qed

lemma stl_text_inject:
  assumes "stl_text name ts = stl_text name us"
  shows "map round_triangle ts = map round_triangle us"
proof -
  from assms have
    "concat (map facet_text ts) @ (''endsolid '' @ name @ ''\<newline>'') =
     concat (map facet_text us) @ (''endsolid '' @ name @ ''\<newline>'')"
    by (simp add: stl_text_grammar)
  then show ?thesis by (rule facets_inject)
qed


lemma six_digits_exponent_order:
  fixes d d' :: nat and e e' :: int
  assumes d: "d \<le> 999999" and d': "100000 \<le> d'"
    and eq: "of_nat d * (10::real) powi (e - 5) = of_nat d' * 10 powi (e' - 5)"
  shows "e' \<le> e"
proof (rule ccontr)
  assume "\<not> e' \<le> e"
  then have lt: "1 \<le> e' - e" by simp
  have "(10::real) powi 1 \<le> 10 powi (e' - e)"
    using lt by (intro power_int_increasing) simp_all
  then have ten: "(10::real) \<le> 10 powi (e' - e)" by simp
  have "of_nat d * (10::real) powi (e - 5) * 10 powi (5 - e) = of_nat d' * 10 powi (e' - 5) * 10 powi (5 - e)"
    using eq by simp
  then have "(of_nat d :: real) = of_nat d' * 10 powi (e' - e)"
    by (simp add: mult.assoc power_int_add [symmetric])
  moreover have "(of_nat d' :: real) * 10 \<le> of_nat d' * 10 powi (e' - e)"
    using ten by (intro mult_left_mono) simp_all
  moreover have "(1000000::real) \<le> of_nat d' * 10" using d' by simp
  moreover have "(of_nat d :: real) \<le> 999999" using d by simp
  ultimately show False by linarith
qed

lemma six_digits_unique:
  fixes d d' :: nat and e e' :: int
  assumes "100000 \<le> d" "d \<le> 999999" "100000 \<le> d'" "d' \<le> 999999"
    and eq: "of_nat d * (10::real) powi (e - 5) = of_nat d' * 10 powi (e' - 5)"
  shows "d = d' \<and> e = e'"
proof -
  have "e' \<le> e" by (rule six_digits_exponent_order [OF assms(2) assms(3) eq])
  moreover have "e \<le> e'" by (rule six_digits_exponent_order [OF assms(4) assms(1) eq [symmetric]])
  ultimately have e: "e = e'" by simp
  with eq have "(of_nat d :: real) = of_nat d'" by simp
  with e show ?thesis by simp
qed

lemma round_g6_cases:
  "round_g6 0 = 0"
  "x < 0 \<Longrightarrow> sig6 \<bar>x\<bar> = (d, e) \<Longrightarrow> round_g6 x = - (of_nat d * 10 powi (e - 5))"
  "0 < x \<Longrightarrow> sig6 \<bar>x\<bar> = (d, e) \<Longrightarrow> round_g6 x = of_nat d * 10 powi (e - 5)"
  by (simp_all add: round_g6_def Let_def)

lemma six_digits_positive:
  assumes "x \<noteq> 0" "sig6 \<bar>x\<bar> = (d, e)"
  shows "0 < of_nat d * (10::real) powi (e - 5)"
proof -
  from assms(1) have "0 < \<bar>x\<bar>" by simp
  from sig6_range(1) [OF this assms(2)] have "0 < d" by simp
  then have "(0::real) < of_nat d" by simp
  moreover have "(0::real) < 10 powi (e - 5)" by simp
  ultimately show ?thesis by (rule mult_pos_pos)
qed

lemma round_g6_sign:
  "(round_g6 x = 0) = (x = 0)" "(round_g6 x < 0) = (x < 0)"
proof -
  obtain d e where de: "sig6 \<bar>x\<bar> = (d, e)" by (cases "sig6 \<bar>x\<bar>") auto
  consider "x = 0" | "x < 0" | "0 < x" by linarith
  then have "(round_g6 x = 0) = (x = 0) \<and> (round_g6 x < 0) = (x < 0)"
  proof cases
    case 1
    then show ?thesis by (simp add: round_g6_cases(1))
  next
    case 2
    then have "x \<noteq> 0" by simp
    from six_digits_positive [OF this de] 2 show ?thesis
      unfolding round_g6_cases(2) [OF 2 de] by linarith
  next
    case 3
    then have "x \<noteq> 0" by simp
    from six_digits_positive [OF this de] 3 show ?thesis
      unfolding round_g6_cases(3) [OF 3 de] by linarith
  qed
  then show "(round_g6 x = 0) = (x = 0)" "(round_g6 x < 0) = (x < 0)" by simp_all
qed

lemma round_g6_abs:
  assumes "x \<noteq> 0" "sig6 \<bar>x\<bar> = (d, e)"
  shows "\<bar>round_g6 x\<bar> = of_nat d * 10 powi (e - 5)"
proof -
  note p = six_digits_positive [OF assms]
  consider "x < 0" | "0 < x" using assms(1) by linarith
  then show ?thesis
  proof cases
    case 1
    from p show ?thesis unfolding round_g6_cases(2) [OF 1 assms(2)] by linarith
  next
    case 2
    from p show ?thesis unfolding round_g6_cases(3) [OF 2 assms(2)] by linarith
  qed
qed

lemma round_eq_fmt_g6:
  assumes "round_g6 x = round_g6 y"
  shows "fmt_g6 x = fmt_g6 y"
proof -
  have z: "(x = 0) = (y = 0)"
    using round_g6_sign(1) [of x] round_g6_sign(1) [of y] unfolding assms by blast
  have sg: "(x < 0) = (y < 0)"
    using round_g6_sign(2) [of x] round_g6_sign(2) [of y] unfolding assms by blast
  show ?thesis
  proof (cases "x = 0")
    case True
    with z have "y = 0" by blast
    with True show ?thesis by (simp only:)
  next
    case False
    with z have y0: "y \<noteq> 0" by blast
    obtain d e where de: "sig6 \<bar>x\<bar> = (d, e)" by (cases "sig6 \<bar>x\<bar>") auto
    obtain d' e' where de': "sig6 \<bar>y\<bar> = (d', e')" by (cases "sig6 \<bar>y\<bar>") auto
    from False have px: "0 < \<bar>x\<bar>" by simp
    from y0 have py: "0 < \<bar>y\<bar>" by simp
    have "\<bar>round_g6 x\<bar> = \<bar>round_g6 y\<bar>" by (simp only: assms)
    then have "of_nat d * (10::real) powi (e - 5) = of_nat d' * 10 powi (e' - 5)"
      unfolding round_g6_abs [OF False de] round_g6_abs [OF y0 de'] .
    from six_digits_unique [OF sig6_range [OF px de] sig6_range [OF py de'] this]
    have k: "sig6 \<bar>x\<bar> = sig6 \<bar>y\<bar>" by (simp only: de de')
    have "fmt_g6 x =
        (let (d, e) = sig6 \<bar>x\<bar>;
             body = (if - 4 \<le> e \<and> e < 6 then fixed_notation d e else exponent_notation d e)
         in if x < 0 then ''-'' @ body else body)"
      using False by (simp only: fmt_g6_def if_False)
    also have "\<dots> =
        (let (d, e) = sig6 \<bar>y\<bar>;
             body = (if - 4 \<le> e \<and> e < 6 then fixed_notation d e else exponent_notation d e)
         in if y < 0 then ''-'' @ body else body)"
      by (simp only: k sg)
    also have "\<dots> = fmt_g6 y"
      using y0 by (simp only: fmt_g6_def if_False)
    finally show ?thesis .
  qed
qed

lemma fmt_g6_eq_iff: "(fmt_g6 x = fmt_g6 y) = (round_g6 x = round_g6 y)"
  using fmt_g6_eq_round round_eq_fmt_g6 by blast

lemma decexp_unique:
  assumes "10 powi e \<le> a" "a < 10 powi (e + 1)"
  shows "decexp a = e"
proof -
  have a: "0 < a" using assms(1) zero_less_power_int [of "10::real" e] by linarith
  note b = decexp_bounds [OF a]
  have "\<not> decexp a + 1 \<le> e"
  proof
    assume "decexp a + 1 \<le> e"
    then have "(10::real) powi (decexp a + 1) \<le> 10 powi e"
      by (intro power_int_increasing) simp_all
    with b(2) assms(1) show False by linarith
  qed
  moreover have "\<not> e + 1 \<le> decexp a"
  proof
    assume "e + 1 \<le> decexp a"
    then have "(10::real) powi (e + 1) \<le> 10 powi (decexp a)"
      by (intro power_int_increasing) simp_all
    with b(1) assms(2) show False by linarith
  qed
  ultimately show ?thesis by simp
qed

lemma sig6_of_six_digits:
  assumes "100000 \<le> d" "d \<le> 999999"
  shows "sig6 (of_nat d * 10 powi (e - 5)) = (d, e)"
proof -
  let ?a = "of_nat d * (10::real) powi (e - 5)"
  have p: "(0::real) < 10 powi (e - 5)" by simp
  have "(10::real) powi e = 10 powi (5 + (e - 5))"
    by (rule arg_cong [where f = "power_int 10"]) simp
  also have "\<dots> = 10 powi 5 * 10 powi (e - 5)" by (rule power_int_add) simp
  also have "(10::real) powi 5 = 100000" by simp
  finally have lo: "(10::real) powi e = 100000 * 10 powi (e - 5)" .
  have "(10::real) powi (e + 1) = 10 powi (6 + (e - 5))"
    by (rule arg_cong [where f = "power_int 10"]) simp
  also have "\<dots> = 10 powi 6 * 10 powi (e - 5)" by (rule power_int_add) simp
  also have "(10::real) powi 6 = 1000000" by simp
  finally have hi: "(10::real) powi (e + 1) = 1000000 * 10 powi (e - 5)" .
  have "(100000::real) \<le> of_nat d" using assms(1) by simp
  then have 1: "10 powi e \<le> ?a" unfolding lo using p by (intro mult_right_mono) simp_all
  have "(of_nat d :: real) < 1000000" using assms(2) by simp
  then have 2: "?a < 10 powi (e + 1)" unfolding hi using p by (intro mult_strict_right_mono) simp_all
  have e: "decexp ?a = e" by (rule decexp_unique [OF 1 2])
  have "scale10 ?a (5 - e) = of_nat d * (10 powi (e - 5) * 10 powi (5 - e))"
    by (simp add: scale10_powi mult.assoc)
  also have "10 powi (e - 5) * 10 powi (5 - e) = (1::real)"
    by (simp add: power_int_add [symmetric])
  finally have s: "scale10 ?a (5 - e) = of_int (int d)" by simp
  have r: "round_half_even (scale10 ?a (5 - e)) = int d"
    unfolding s by (rule round_half_even_of_int)
  from assms(2) show ?thesis by (simp add: sig6_def e r Let_def)
qed

lemma round_g6_idem: "round_g6 (round_g6 x) = round_g6 x"
proof (cases "x = 0")
  case True
  then show ?thesis by (simp add: round_g6_def)
next
  case False
  then have px: "0 < \<bar>x\<bar>" by simp
  obtain d e where de: "sig6 \<bar>x\<bar> = (d, e)" by (cases "sig6 \<bar>x\<bar>") auto
  note r = sig6_range [OF px de]
  have a: "\<bar>round_g6 x\<bar> = of_nat d * 10 powi (e - 5)" by (rule round_g6_abs [OF False de])
  have k: "sig6 \<bar>round_g6 x\<bar> = (d, e)" unfolding a by (rule sig6_of_six_digits [OF r])
  have n0: "round_g6 x \<noteq> 0" using False round_g6_sign(1) [of x] by simp
  have "\<bar>round_g6 (round_g6 x)\<bar> = \<bar>round_g6 x\<bar>"
    using round_g6_abs [OF n0 k] a by simp
  moreover have "(round_g6 (round_g6 x) < 0) = (round_g6 x < 0)"
    using round_g6_sign(2) [of "round_g6 x"] by simp
  ultimately show ?thesis by (auto simp add: abs_if split: if_splits)
qed

lemma fmt_g6_round: "fmt_g6 (round_g6 x) = fmt_g6 x"
  by (rule round_eq_fmt_g6 [OF round_g6_idem])

lemma round_triangle_facet_text:
  assumes "round_triangle t = round_triangle u"
  shows "facet_text t = facet_text u"
proof -
  obtain n v1 v2 v3 where t: "t = (n, v1, v2, v3)" by (cases t) auto
  obtain m w1 w2 w3 where u: "u = (m, w1, w2, w3)" by (cases u) auto
  have vec: "round_vec a = round_vec b \<Longrightarrow> fmt_vec a = fmt_vec b" for a b
  proof -
    assume h: "round_vec a = round_vec b"
    obtain x y z where a: "a = (x, y, z)" by (cases a) auto
    obtain x' y' z' where b: "b = (x', y', z')" by (cases b) auto
    from h have 1: "round_g6 x = round_g6 x'" and 2: "round_g6 y = round_g6 y'"
      and 3: "round_g6 z = round_g6 z'"
      by (simp_all add: a b round_vec_def)
    from round_eq_fmt_g6 [OF 1] round_eq_fmt_g6 [OF 2] round_eq_fmt_g6 [OF 3]
    show "fmt_vec a = fmt_vec b" by (simp add: a b fmt_vec_def)
  qed
  from assms have 0: "round_vec n = round_vec m" and 1: "round_vec v1 = round_vec w1"
    and 2: "round_vec v2 = round_vec w2" and 3: "round_vec v3 = round_vec w3"
    by (simp_all add: t u round_triangle_def)
  from vec [OF 0] vec [OF 1] vec [OF 2] vec [OF 3]
  show ?thesis by (simp add: t u facet_text_def)
qed

lemma rounded_lists_facet_texts:
  "map round_triangle ts = map round_triangle us \<Longrightarrow> map facet_text ts = map facet_text us"
proof (induction ts arbitrary: us)
  case Nil
  then show ?case by simp
next
  case (Cons t ts')
  then obtain u us' where us: "us = u # us'" by (cases us) auto
  from Cons.prems have h: "round_triangle t = round_triangle u"
    and r: "map round_triangle ts' = map round_triangle us'" by (simp_all add: us)
  from round_triangle_facet_text [OF h] Cons.IH [OF r] show ?case by (simp add: us)
qed

lemma stl_text_eq_iff:
  "(stl_text name ts = stl_text name us) = (map round_triangle ts = map round_triangle us)"
proof
  assume "stl_text name ts = stl_text name us"
  then show "map round_triangle ts = map round_triangle us" by (rule stl_text_inject)
next
  assume "map round_triangle ts = map round_triangle us"
  from rounded_lists_facet_texts [OF this] show "stl_text name ts = stl_text name us"
    by (simp add: stl_text_grammar)
qed

lemma round_triangle_idem: "round_triangle (round_triangle t) = round_triangle t"
  by (cases t rule: prod_cases4)
     (auto simp add: round_triangle_def round_vec_def round_g6_idem split: prod.splits)

text \<open>
  Two triangles for the default run: the first triangle of the first horizontal divider,
  whose y coordinates are 113/3 and 119/3, and the triangle a reader gets from the
  written digits 37.6667 and 39.6667.
\<close>

definition divider_triangle :: Triangle where
  "divider_triangle = ((0, 0, - 1), (2, 113 / 3, 2), (213, 113 / 3, 2), (213, 119 / 3, 2))"

definition divider_triangle_as_written :: Triangle where
  "divider_triangle_as_written =
     ((0, 0, - 1), (2, 376667 / 10000, 2), (213, 376667 / 10000, 2), (213, 396667 / 10000, 2))"

definition replace_triangle :: "Triangle \<Rightarrow> Triangle \<Rightarrow> Triangle list \<Rightarrow> Triangle list" where
  "replace_triangle a b ts = map (\<lambda>t. if t = a then b else t) ts"

lemmas fmt_g6_eval = fmt_g6_def sig6_def decexp_def exp_up.simps exp_down.simps scale10_def
  round_half_even_def fixed_notation_def exponent_notation_def with_fraction_def strip_zeros_def
  str_nat.simps digit_char_def Let_def

lemma divider_triangle_texts:
  "fmt_g6 (113 / 3) = ''37.6667''" "fmt_g6 (376667 / 10000) = ''37.6667''"
  "fmt_g6 (119 / 3) = ''39.6667''" "fmt_g6 (396667 / 10000) = ''39.6667''"
  by (simp_all add: fmt_g6_eval)

lemma divider_triangle_facet:
  "facet_text divider_triangle_as_written = facet_text divider_triangle"
  by (simp add: facet_text_def fmt_vec_def divider_triangle_def divider_triangle_as_written_def
        divider_triangle_texts)

lemma divider_triangle_in_mesh: "divider_triangle \<in> set (grid_mesh 215 115 2 2 20 5 3)"
  by (simp add: divider_triangle_def grid_mesh_boxes mesh_of_concat grid_boxes_def
        build_boxes_closed box_triangles_table box_table_def vertical_divider_def
        horizontal_divider_def cell_width_def cell_length_def)

lemma replace_triangle_text:
  assumes "facet_text b = facet_text a"
  shows "stl_text name (replace_triangle a b ts) = stl_text name ts"
proof -
  have "map facet_text (replace_triangle a b ts) = map facet_text ts"
    using assms by (simp add: replace_triangle_def)
  then show ?thesis by (simp add: stl_text_grammar)
qed

lemma replace_triangle_differs:
  assumes "a \<in> set ts" "a \<noteq> b"
  shows "replace_triangle a b ts \<noteq> ts"
proof
  assume "replace_triangle a b ts = ts"
  with assms(1) have "a \<in> set (replace_triangle a b ts)" by (simp only:)
  then have "a \<in> (\<lambda>t. if t = a then b else t) ` set ts"
    by (simp only: replace_triangle_def set_map)
  then obtain t where eq: "a = (if t = a then b else t)" by (rule imageE)
  show False
  proof (cases "t = a")
    case True
    with eq have "a = b" by simp
    with assms(2) show False by blast
  next
    case False
    with eq have "a = t" by simp
    with False show False by blast
  qed
qed

text \<open>
  Claim C8 says that a reader recovers from the written text the identical triangle
  list.  It fails for the default run: the file generate_grid writes is also the text of
  a different triangle list, the mesh with 37.6667 and 39.6667 in place of 113/3 and
  119/3 in one triangle, so no function from texts to triangle lists returns the list
  that was written for every list.
\<close>

theorem default_run_text_not_injective:
  "valid_parameters 215 115 2 2 20 5 3
   \<and> replace_triangle divider_triangle divider_triangle_as_written (grid_mesh 215 115 2 2 20 5 3)
       \<noteq> grid_mesh 215 115 2 2 20 5 3
   \<and> files (snd (generate_grid empty_world 215 115 2 2 20 5 3 ''grid.stl'')) ''grid.stl'' =
       Some (stl_text ''grid_5x3''
         (replace_triangle divider_triangle divider_triangle_as_written (grid_mesh 215 115 2 2 20 5 3)))
   \<and> \<not> (\<exists>reader. \<forall>ts. reader (stl_text ''grid_5x3'' ts) = ts)"
proof -
  let ?mesh = "grid_mesh 215 115 2 2 20 5 3"
  let ?other = "replace_triangle divider_triangle divider_triangle_as_written ?mesh"
  have ne: "divider_triangle \<noteq> divider_triangle_as_written"
    by (simp add: divider_triangle_def divider_triangle_as_written_def)
  have diff: "?other \<noteq> ?mesh"
    by (rule replace_triangle_differs [OF divider_triangle_in_mesh ne])
  have same: "stl_text ''grid_5x3'' ?other = stl_text ''grid_5x3'' ?mesh"
    by (rule replace_triangle_text [OF divider_triangle_facet])
  have run: "generate_grid empty_world 215 115 2 2 20 5 3 ''grid.stl'' =
      write_ascii_stl empty_world ''grid.stl'' ''grid_5x3'' ?mesh"
    using generate_grid_valid [OF default_parameters_valid, of empty_world "''grid.stl''"]
    by (simp add: solid_name_default)
  have written: "files (snd (generate_grid empty_world 215 115 2 2 20 5 3 ''grid.stl'')) ''grid.stl'' =
      Some (stl_text ''grid_5x3'' ?other)"
    unfolding run same by (simp add: write_ascii_stl_def empty_world_def Let_def)
  have no_reader: "\<not> (\<exists>reader. \<forall>ts. reader (stl_text ''grid_5x3'' ts) = ts)"
  proof
    assume "\<exists>reader. \<forall>ts. reader (stl_text ''grid_5x3'' ts) = ts"
    then obtain reader :: "string \<Rightarrow> Triangle list"
      where r: "\<forall>ts. reader (stl_text ''grid_5x3'' ts) = ts" ..
    from r have "reader (stl_text ''grid_5x3'' ?other) = ?other" by blast
    moreover from r have "reader (stl_text ''grid_5x3'' ?mesh) = ?mesh" by blast
    ultimately show False using same diff by simp
  qed
  from default_parameters_valid diff written no_reader show ?thesis by blast
qed

text \<open>
  Claim C8, amended.  write_ascii_stl opens the file and, unless that fails, leaves in it
  exactly the text of the grammar: the line solid name, for every triangle in list order
  the seven lines facet normal, outer loop, three times vertex, endloop, endfacet, and
  the line endsolid name, every number written by the format .6g.  The text of a number
  denotes the number rounded to six significant digits, and rounding again changes
  nothing.  Hence the text determines the triangle list in its order with every
  component rounded to six significant digits, and no more than that: two lists have the
  same text exactly when they agree after rounding.  A reader gets back the identical
  list only if no component needs more than six significant digits.
\<close>

theorem write_ascii_stl_text_determines_rounded_list:
  "write_ascii_stl w f name ts =
     (if f \<in> refused w then (Inl OSError, w\<lparr>opened := opened w @ [f]\<rparr>)
      else (Inr (), w\<lparr>opened := opened w @ [f], files := (files w)(f \<mapsto> stl_text name ts)\<rparr>))
   \<and> stl_text name ts =
       ''solid '' @ name @ ''\<newline>'' @ concat (map facet_text ts) @ ''endsolid '' @ name @ ''\<newline>''
   \<and> facet_text (n, v1, v2, v3) =
       ''  facet normal '' @ fmt_vec n @ ''\<newline>'' @
       ''    outer loop\<newline>'' @
       ''      vertex '' @ fmt_vec v1 @ ''\<newline>'' @
       ''      vertex '' @ fmt_vec v2 @ ''\<newline>'' @
       ''      vertex '' @ fmt_vec v3 @ ''\<newline>'' @
       ''    endloop\<newline>'' @
       ''  endfacet\<newline>''
   \<and> fmt_vec (x, y, z) = fmt_g6 x @ '' '' @ fmt_g6 y @ '' '' @ fmt_g6 z
   \<and> parse_g6 (fmt_g6 x) = round_g6 x
   \<and> round_g6 (round_g6 x) = round_g6 x
   \<and> (stl_text name ts = stl_text name us) = (map round_triangle ts = map round_triangle us)
   \<and> stl_text name (map round_triangle ts) = stl_text name ts"
proof -
  have a: "write_ascii_stl w f name ts =
     (if f \<in> refused w then (Inl OSError, w\<lparr>opened := opened w @ [f]\<rparr>)
      else (Inr (), w\<lparr>opened := opened w @ [f], files := (files w)(f \<mapsto> stl_text name ts)\<rparr>))"
    by (simp add: write_ascii_stl_def Let_def)
  have b: "facet_text (n, v1, v2, v3) =
       ''  facet normal '' @ fmt_vec n @ ''\<newline>'' @
       ''    outer loop\<newline>'' @
       ''      vertex '' @ fmt_vec v1 @ ''\<newline>'' @
       ''      vertex '' @ fmt_vec v2 @ ''\<newline>'' @
       ''      vertex '' @ fmt_vec v3 @ ''\<newline>'' @
       ''    endloop\<newline>'' @
       ''  endfacet\<newline>''"
    by (simp add: facet_text_def)
  have c: "fmt_vec (x, y, z) = fmt_g6 x @ '' '' @ fmt_g6 y @ '' '' @ fmt_g6 z"
    by (simp add: fmt_vec_def)
  have "map round_triangle (map round_triangle ts) = map round_triangle ts"
    by (simp add: round_triangle_idem)
  then have d: "stl_text name (map round_triangle ts) = stl_text name ts"
    by (simp only: stl_text_eq_iff)
  from a stl_text_grammar [of name ts] b c parse_fmt_g6 [of x] round_g6_idem [of x]
       stl_text_eq_iff [of name ts us] d
  show ?thesis by blast
qed

theorem write_ascii_stl_text_determines_rounded_list_witness:
  "parse_g6 (fmt_g6 (113 / 3)) = round_g6 (113 / 3)
   \<and> fmt_g6 (113 / 3) = ''37.6667''
   \<and> stl_text ''grid_5x3'' (map round_triangle [divider_triangle]) = stl_text ''grid_5x3'' [divider_triangle]"
  using write_ascii_stl_text_determines_rounded_list
          [of empty_world "''grid.stl''" "''grid_5x3''" "[divider_triangle]" "(0, 0, - 1)"
              "(0, 0, 0)" "(0, 0, 0)" "(0, 0, 0)" "113 / 3" 0 0 "[]"]
        divider_triangle_texts(1)
  by blast

end
